theory Spec2Isabelle
  imports Main "HOL-Library.Multiset" "HOL-Library.Sublist"
begin

section \<open>Values exchanged between Python and PostgreSQL\<close>

text \<open>
  The repository class \<open>Database\<close> of \<open>database.py\<close> talks to PostgreSQL through psycopg2.
  The exceptions that can reach \<open>execute_with_retry\<close> are the psycopg2 error classes and
  the Python errors raised by the nested operation functions themselves.
\<close>

datatype error =
    OperationalError | InterfaceError | PoolError
  | IntegrityError | DataError | ProgrammingError
  | KeyError | TypeError | ValueError

text \<open>\<open>except (psycopg2.OperationalError, psycopg2.InterfaceError)\<close>\<close>

definition transient :: "error \<Rightarrow> bool" where
  "transient e = (e = OperationalError \<or> e = InterfaceError)"

text \<open>
  A value stored under a key of a Python \<open>dict\<close>: the key may be absent, or hold \<open>None\<close>,
  or hold a value.
\<close>

datatype 'a field = Missing | PyNone | Val 'a

text \<open>\<open>d.get(k)\<close>: \<open>None\<close> for a missing key.\<close>

fun get :: "'a field \<Rightarrow> 'a option" where
  "get Missing = None"
| "get PyNone = None"
| "get (Val v) = Some v"

text \<open>\<open>for x in d.get(k, [])\<close>: a missing key iterates over nothing, \<open>None\<close> is not iterable.\<close>

fun get_list :: "'a list field \<Rightarrow> error + 'a list" where
  "get_list Missing = Inr []"
| "get_list PyNone = Inl TypeError"
| "get_list (Val xs) = Inr xs"

text \<open>\<open>k in d\<close>\<close>

definition has_key :: "'a field \<Rightarrow> bool" where
  "has_key f = (f \<noteq> Missing)"

type_synonym date = int
type_synonym timestamp = int

text \<open>The dict \<open>{'url': ..., 'preview_data': ...}\<close> that \<open>load_image\<close> builds.\<close>

record image =
  url :: string
  preview_data :: string

text \<open>
  The payload dict handed to \<open>add_record\<close> and \<open>update_record\<close>, one field per key the
  two functions read.
\<close>

record payload =
  full_name :: "string field"
  father_name :: "string field"
  mother_name :: "string field"
  dob :: "date field"
  gender :: "string field"
  nid :: "string field"
  voter_no :: "string field"
  permanent_address :: "string field"
  present_address :: "string field"
  image_data :: "image field"
  description :: "string field"
  mobile_numbers :: "string list field"
  whatsapp_numbers :: "string list field"
  facebook_links :: "string list field"
  website_links :: "string list field"
  pdf_urls :: "string list field"

section \<open>The three tables\<close>

text \<open>
  Rows of \<open>persons\<close>, \<open>contact_info\<close> and \<open>documents\<close>, with the columns of the
  \<open>CREATE TABLE\<close> statements in \<open>create_tables\<close>. The field prefixes are the aliases the
  queries use (\<open>p\<close>, \<open>ci\<close>, \<open>d\<close>).
\<close>

record person_row =
  p_id :: int
  p_full_name :: string
  p_father_name :: string
  p_mother_name :: string
  p_dob :: date
  p_gender :: string
  p_nid :: string
  p_voter_no :: "string option"
  p_permanent_address :: string
  p_present_address :: string
  p_image_data :: "image option"
  p_description :: "string option"
  p_created_at :: timestamp

record contact_row =
  ci_id :: int
  ci_person_id :: int
  ci_type :: string
  ci_value :: string

record document_row =
  d_id :: int
  d_person_id :: int
  d_url :: string
  d_type :: string

text \<open>
  A table is \<open>None\<close> while it does not exist. Each \<open>SERIAL\<close> column owns a sequence; the
  field holds the last value it handed out.
\<close>

record database =
  persons :: "person_row list option"
  contact_info :: "contact_row list option"
  documents :: "document_row list option"
  persons_id_seq :: int
  contact_info_id_seq :: int
  documents_id_seq :: int

text \<open>
  A statement runs on the transaction's working copy of the database and either raises or
  returns; the working copy is kept in both cases (sequence values survive a failure).
\<close>

type_synonym 'a stmt = "database \<Rightarrow> (error + 'a) \<times> database"

definition andthen :: "'a stmt \<Rightarrow> ('a \<Rightarrow> 'b stmt) \<Rightarrow> 'b stmt" where
  "andthen m f d = (case m d of (Inl e, d') \<Rightarrow> (Inl e, d') | (Inr a, d') \<Rightarrow> f a d')"

definition returns :: "'a \<Rightarrow> 'a stmt" where
  "returns a d = (Inr a, d)"

definition raises :: "error \<Rightarrow> 'a stmt" where
  "raises e d = (Inl e, d)"

text \<open>A Python expression that may raise before any statement is sent.\<close>

definition lift :: "error + 'a \<Rightarrow> 'a stmt" where
  "lift r d = (case r of Inl e \<Rightarrow> (Inl e, d) | Inr a \<Rightarrow> (Inr a, d))"

text \<open>\<open>for x in xs: cur.execute(...)\<close>: the first statement that raises ends the loop.\<close>

fun for_each :: "'a list \<Rightarrow> ('a \<Rightarrow> unit stmt) \<Rightarrow> unit stmt" where
  "for_each [] body d = (Inr (), d)"
| "for_each (x # xs) body d =
     (case body x d of (Inl e, d') \<Rightarrow> (Inl e, d') | (Inr _, d') \<Rightarrow> for_each xs body d')"

subsection \<open>Column types\<close>

text \<open>
  psycopg2 refuses a string parameter that contains a NUL character (\<open>ValueError\<close>).
  A \<open>VARCHAR(n)\<close> column takes a longer string only when the excess is all spaces, and
  stores the first \<open>n\<close> characters; otherwise the statement fails (\<open>DataError\<close>).
\<close>

definition nul_free :: "string \<Rightarrow> bool" where
  "nul_free s = (CHR 0x00 \<notin> set s)"

definition fits :: "nat \<Rightarrow> string \<Rightarrow> bool" where
  "fits n s = (\<forall>c \<in> set (drop n s). c = CHR '' '')"

definition varchar :: "nat \<Rightarrow> string \<Rightarrow> string" where
  "varchar n s = take n s"

fun holds :: "('a \<Rightarrow> bool) \<Rightarrow> 'a option \<Rightarrow> bool" where
  "holds P None = True"
| "holds P (Some x) = P x"

text \<open>The parameter tuple of the \<open>INSERT INTO persons\<close> and \<open>UPDATE persons\<close> statements.\<close>

record person_values =
  v_full_name :: "string option"
  v_father_name :: "string option"
  v_mother_name :: "string option"
  v_dob :: "date option"
  v_gender :: "string option"
  v_nid :: "string option"
  v_voter_no :: "string option"
  v_permanent_address :: "string option"
  v_present_address :: "string option"
  v_image_data :: "image option"
  v_description :: "string option"

text \<open>psycopg2 can adapt every string of the tuple.\<close>

definition adaptable :: "person_values \<Rightarrow> bool" where
  "adaptable v =
    (holds nul_free (v_full_name v) \<and> holds nul_free (v_father_name v) \<and>
     holds nul_free (v_mother_name v) \<and> holds nul_free (v_gender v) \<and>
     holds nul_free (v_nid v) \<and> holds nul_free (v_voter_no v) \<and>
     holds nul_free (v_permanent_address v) \<and> holds nul_free (v_present_address v) \<and>
     holds nul_free (v_description v))"

text \<open>
  Every literal can be coerced to its column's type: the \<open>VARCHAR\<close> lengths of
  \<open>CREATE TABLE persons\<close>, and \<open>JSONB\<close>, which cannot hold the character U+0000.
\<close>

definition coercible :: "person_values \<Rightarrow> bool" where
  "coercible v =
    (holds (fits 255) (v_full_name v) \<and> holds (fits 255) (v_father_name v) \<and>
     holds (fits 255) (v_mother_name v) \<and> holds (fits 50) (v_gender v) \<and>
     holds (fits 100) (v_nid v) \<and> holds (fits 100) (v_voter_no v) \<and>
     holds (\<lambda>i. nul_free (url i) \<and> nul_free (preview_data i)) (v_image_data v))"

text \<open>No \<open>NOT NULL\<close> column receives NULL.\<close>

definition not_null :: "person_values \<Rightarrow> bool" where
  "not_null v =
    (v_full_name v \<noteq> None \<and> v_father_name v \<noteq> None \<and> v_mother_name v \<noteq> None \<and>
     v_dob v \<noteq> None \<and> v_gender v \<noteq> None \<and> v_nid v \<noteq> None \<and>
     v_permanent_address v \<noteq> None \<and> v_present_address v \<noteq> None)"

text \<open>The scalar columns of a row as the statement sets them (all but \<open>id\<close> and \<open>created_at\<close>).\<close>

definition set_columns :: "person_values \<Rightarrow> person_row \<Rightarrow> person_row" where
  "set_columns v r = r
    \<lparr> p_full_name := varchar 255 (the (v_full_name v)),
      p_father_name := varchar 255 (the (v_father_name v)),
      p_mother_name := varchar 255 (the (v_mother_name v)),
      p_dob := the (v_dob v),
      p_gender := varchar 50 (the (v_gender v)),
      p_nid := varchar 100 (the (v_nid v)),
      p_voter_no := map_option (varchar 100) (v_voter_no v),
      p_permanent_address := the (v_permanent_address v),
      p_present_address := the (v_present_address v),
      p_image_data := v_image_data v,
      p_description := v_description v \<rparr>"

subsection \<open>Data definition statements\<close>

text \<open>
  \<open>DROP TABLE IF EXISTS t CASCADE\<close> removes the table with its rows and its sequence and
  does nothing when the table is absent. \<open>CREATE TABLE t\<close> fails on an existing table;
  \<open>CREATE TABLE IF NOT EXISTS t\<close> leaves an existing table as it is. A new sequence has
  handed out nothing yet.
\<close>

definition drop_persons :: "unit stmt" where
  "drop_persons d = (Inr (), d\<lparr>persons := None\<rparr>)"

definition drop_contact_info :: "unit stmt" where
  "drop_contact_info d = (Inr (), d\<lparr>contact_info := None\<rparr>)"

definition drop_documents :: "unit stmt" where
  "drop_documents d = (Inr (), d\<lparr>documents := None\<rparr>)"

definition create_persons :: "unit stmt" where
  "create_persons d =
    (case persons d of
       Some _ \<Rightarrow> (Inl ProgrammingError, d)
     | None \<Rightarrow> (Inr (), d\<lparr>persons := Some [], persons_id_seq := 0\<rparr>))"

definition create_contact_info_if_not_exists :: "unit stmt" where
  "create_contact_info_if_not_exists d =
    (case contact_info d of
       Some _ \<Rightarrow> (Inr (), d)
     | None \<Rightarrow> (Inr (), d\<lparr>contact_info := Some [], contact_info_id_seq := 0\<rparr>))"

definition create_documents_if_not_exists :: "unit stmt" where
  "create_documents_if_not_exists d =
    (case documents d of
       Some _ \<Rightarrow> (Inr (), d)
     | None \<Rightarrow> (Inr (), d\<lparr>documents := Some [], documents_id_seq := 0\<rparr>))"

subsection \<open>Data manipulation statements\<close>

text \<open>
  \<open>INSERT INTO persons (...) VALUES (...) RETURNING id\<close>. The parameters are adapted by
  psycopg2, the literals coerced to the column types, then the row takes the next value of
  the sequence and the \<open>NOT NULL\<close> and \<open>PRIMARY KEY\<close> constraints are checked.
\<close>

definition insert_persons :: "person_values \<Rightarrow> timestamp \<Rightarrow> int stmt" where
  "insert_persons v now d =
    (if \<not> adaptable v then (Inl ValueError, d)
     else case persons d of
       None \<Rightarrow> (Inl ProgrammingError, d)
     | Some rows \<Rightarrow>
         if \<not> coercible v then (Inl DataError, d)
         else
           let new_id = persons_id_seq d + 1;
               d' = d\<lparr>persons_id_seq := new_id\<rparr>
           in if \<not> not_null v \<or> new_id \<in> p_id ` set rows then (Inl IntegrityError, d')
              else (Inr new_id, d'\<lparr>persons := Some (rows @
                [set_columns v \<lparr>p_id = new_id, p_full_name = [], p_father_name = [],
                   p_mother_name = [], p_dob = 0, p_gender = [], p_nid = [], p_voter_no = None,
                   p_permanent_address = [], p_present_address = [], p_image_data = None,
                   p_description = None, p_created_at = now\<rparr>])\<rparr>))"

text \<open>
  \<open>UPDATE persons SET full_name = %s, ..., description = %s WHERE id = %s\<close>: the eleven
  scalar columns of the matching row; \<open>id\<close> and \<open>created_at\<close> are not in the \<open>SET\<close> list.
\<close>

definition update_persons :: "person_values \<Rightarrow> int \<Rightarrow> unit stmt" where
  "update_persons v record_id d =
    (if \<not> adaptable v then (Inl ValueError, d)
     else case persons d of
       None \<Rightarrow> (Inl ProgrammingError, d)
     | Some rows \<Rightarrow>
         if \<not> coercible v then (Inl DataError, d)
         else if record_id \<in> p_id ` set rows \<and> \<not> not_null v then (Inl IntegrityError, d)
         else (Inr (), d\<lparr>persons :=
                 Some (map (\<lambda>r. if p_id r = record_id then set_columns v r else r) rows)\<rparr>))"

text \<open>\<open>person_id INTEGER REFERENCES persons(id)\<close>\<close>

definition references_person :: "database \<Rightarrow> int \<Rightarrow> bool" where
  "references_person d person_id =
    (case persons d of None \<Rightarrow> False | Some rows \<Rightarrow> person_id \<in> p_id ` set rows)"

text \<open>\<open>INSERT INTO contact_info (person_id, type, value) VALUES (%s, %s, %s)\<close>\<close>

definition insert_contact_info :: "int \<Rightarrow> string \<Rightarrow> string \<Rightarrow> unit stmt" where
  "insert_contact_info person_id type val d =
    (if \<not> nul_free type \<or> \<not> nul_free val then (Inl ValueError, d)
     else case contact_info d of
       None \<Rightarrow> (Inl ProgrammingError, d)
     | Some rows \<Rightarrow>
         if \<not> fits 50 type \<or> \<not> fits 255 val then (Inl DataError, d)
         else
           let new_id = contact_info_id_seq d + 1;
               d' = d\<lparr>contact_info_id_seq := new_id\<rparr>
           in if new_id \<in> ci_id ` set rows \<or> \<not> references_person d person_id
              then (Inl IntegrityError, d')
              else (Inr (), d'\<lparr>contact_info := Some (rows @
                [\<lparr>ci_id = new_id, ci_person_id = person_id,
                  ci_type = varchar 50 type, ci_value = varchar 255 val\<rparr>])\<rparr>))"

text \<open>\<open>INSERT INTO documents (person_id, url, type) VALUES (%s, %s, %s)\<close>; \<open>url\<close> is \<open>TEXT\<close>.\<close>

definition insert_documents :: "int \<Rightarrow> string \<Rightarrow> string \<Rightarrow> unit stmt" where
  "insert_documents person_id u type d =
    (if \<not> nul_free u \<or> \<not> nul_free type then (Inl ValueError, d)
     else case documents d of
       None \<Rightarrow> (Inl ProgrammingError, d)
     | Some rows \<Rightarrow>
         if \<not> fits 50 type then (Inl DataError, d)
         else
           let new_id = documents_id_seq d + 1;
               d' = d\<lparr>documents_id_seq := new_id\<rparr>
           in if new_id \<in> d_id ` set rows \<or> \<not> references_person d person_id
              then (Inl IntegrityError, d')
              else (Inr (), d'\<lparr>documents := Some (rows @
                [\<lparr>d_id = new_id, d_person_id = person_id,
                  d_url = u, d_type = varchar 50 type\<rparr>])\<rparr>))"

text \<open>\<open>DELETE FROM contact_info WHERE person_id = %s\<close>\<close>

definition delete_contact_info_where :: "int \<Rightarrow> unit stmt" where
  "delete_contact_info_where record_id d =
    (case contact_info d of
       None \<Rightarrow> (Inl ProgrammingError, d)
     | Some rows \<Rightarrow>
         (Inr (), d\<lparr>contact_info := Some (filter (\<lambda>c. ci_person_id c \<noteq> record_id) rows)\<rparr>))"

text \<open>\<open>DELETE FROM documents WHERE person_id = %s\<close>\<close>

definition delete_documents_where :: "int \<Rightarrow> unit stmt" where
  "delete_documents_where record_id d =
    (case documents d of
       None \<Rightarrow> (Inl ProgrammingError, d)
     | Some rows \<Rightarrow>
         (Inr (), d\<lparr>documents := Some (filter (\<lambda>c. d_person_id c \<noteq> record_id) rows)\<rparr>))"

text \<open>
  \<open>DELETE FROM persons [WHERE id = %s]\<close>, with \<open>ON DELETE CASCADE\<close>: the rows of the two
  child tables that reference a deleted person go with it.
\<close>

definition delete_persons :: "(person_row \<Rightarrow> bool) \<Rightarrow> unit stmt" where
  "delete_persons cond d =
    (case persons d of
       None \<Rightarrow> (Inl ProgrammingError, d)
     | Some rows \<Rightarrow>
         let gone = p_id ` set (filter cond rows)
         in (Inr (), d\<lparr>persons := Some (filter (\<lambda>r. \<not> cond r) rows),
                        contact_info :=
                          map_option (filter (\<lambda>c. ci_person_id c \<notin> gone)) (contact_info d),
                        documents :=
                          map_option (filter (\<lambda>c. d_person_id c \<notin> gone)) (documents d)\<rparr>))"

text \<open>\<open>DELETE FROM contact_info\<close>, \<open>DELETE FROM documents\<close>\<close>

definition delete_contact_info :: "unit stmt" where
  "delete_contact_info d =
    (case contact_info d of
       None \<Rightarrow> (Inl ProgrammingError, d)
     | Some _ \<Rightarrow> (Inr (), d\<lparr>contact_info := Some []\<rparr>))"

definition delete_documents :: "unit stmt" where
  "delete_documents d =
    (case documents d of
       None \<Rightarrow> (Inl ProgrammingError, d)
     | Some _ \<Rightarrow> (Inr (), d\<lparr>documents := Some []\<rparr>))"

subsection \<open>The aggregating query\<close>

text \<open>
  The three read operations share one query:
  \<^verbatim>\<open>SELECT p.*, array_agg(DISTINCT CASE WHEN ci.type = 'mobile' THEN ci.value END)
            FILTER (WHERE ci.type = 'mobile') as mobile_numbers, ...,
          array_agg(DISTINCT d.url) FILTER (WHERE d.type = 'pdf') as pdf_urls
   FROM persons p LEFT JOIN contact_info ci ON p.id = ci.person_id
                  LEFT JOIN documents d ON p.id = d.person_id
   [WHERE ...] GROUP BY p.id [ORDER BY p.created_at DESC]\<close>
  A left join pairs a person with each matching row, or with NULL when there is none, so the
  group of a person is the product of its contact rows and its document rows.
\<close>

definition left_join :: "'a list \<Rightarrow> 'a option list" where
  "left_join matching = (if matching = [] then [None] else map Some matching)"

definition joined ::
  "contact_row list \<Rightarrow> document_row list \<Rightarrow> person_row \<Rightarrow>
   (contact_row option \<times> document_row option) list" where
  "joined cis ds p =
     List.product (left_join (filter (\<lambda>ci. ci_person_id ci = p_id p) cis))
                  (left_join (filter (\<lambda>d. d_person_id d = p_id p) ds))"

text \<open>
  \<open>array_agg(DISTINCT x)\<close> is NULL over no rows. SQL leaves the order of the array open;
  the model keeps each value at its last occurrence.
\<close>

definition array_agg_distinct :: "'a list \<Rightarrow> 'a list option" where
  "array_agg_distinct xs = (if xs = [] then None else Some (remdups xs))"

text \<open>\<open>ci.type = k\<close> and \<open>d.type = k\<close> are not true on the NULL side of a left join.\<close>

fun ci_type_is :: "string \<Rightarrow> contact_row option \<Rightarrow> bool" where
  "ci_type_is k None = False"
| "ci_type_is k (Some ci) = (ci_type ci = k)"

fun d_type_is :: "string \<Rightarrow> document_row option \<Rightarrow> bool" where
  "d_type_is k None = False"
| "d_type_is k (Some d) = (d_type d = k)"

text \<open>\<open>CASE WHEN ci.type = k THEN ci.value END\<close>\<close>

fun case_when_type :: "string \<Rightarrow> contact_row option \<Rightarrow> string option" where
  "case_when_type k None = None"
| "case_when_type k (Some ci) = (if ci_type ci = k then Some (ci_value ci) else None)"

definition agg_contact ::
  "string \<Rightarrow> (contact_row option \<times> document_row option) list \<Rightarrow> string option list option" where
  "agg_contact k js =
     array_agg_distinct (map (\<lambda>(ci, d). case_when_type k ci) (filter (\<lambda>(ci, d). ci_type_is k ci) js))"

definition agg_url ::
  "string \<Rightarrow> (contact_row option \<times> document_row option) list \<Rightarrow> string option list option" where
  "agg_url k js =
     array_agg_distinct (map (\<lambda>(ci, d). map_option d_url d) (filter (\<lambda>(ci, d). d_type_is k d) js))"

text \<open>A fetched row (\<open>RealDictRow\<close>): the columns of \<open>p.*\<close> and the five arrays.\<close>

record agg_row =
  a_person :: person_row
  a_mobile_numbers :: "string option list option"
  a_whatsapp_numbers :: "string option list option"
  a_facebook_links :: "string option list option"
  a_website_links :: "string option list option"
  a_pdf_urls :: "string option list option"

definition aggregate :: "contact_row list \<Rightarrow> document_row list \<Rightarrow> person_row \<Rightarrow> agg_row" where
  "aggregate cis ds p =
     (let js = joined cis ds p in
      \<lparr> a_person = p,
        a_mobile_numbers = agg_contact ''mobile'' js,
        a_whatsapp_numbers = agg_contact ''whatsapp'' js,
        a_facebook_links = agg_contact ''facebook'' js,
        a_website_links = agg_contact ''website'' js,
        a_pdf_urls = agg_url ''pdf'' js \<rparr>)"

text \<open>\<open>ORDER BY p.created_at DESC\<close>\<close>

definition order_by_created_at_desc :: "agg_row list \<Rightarrow> agg_row list" where
  "order_by_created_at_desc rows = sort_key (\<lambda>a. - p_created_at (a_person a)) rows"

text \<open>
  \<open>GROUP BY p.id\<close> makes one group per person, \<open>id\<close> being the primary key. The query needs
  all three tables.
\<close>

definition select_persons :: "(person_row \<Rightarrow> bool) \<Rightarrow> bool \<Rightarrow> agg_row list stmt" where
  "select_persons cond ordered d =
    (case (persons d, contact_info d, documents d) of
       (Some ps, Some cis, Some ds) \<Rightarrow>
         (Inr ((if ordered then order_by_created_at_desc else id)
                 (map (aggregate cis ds) (filter cond ps))), d)
     | _ \<Rightarrow> (Inl ProgrammingError, d))"

subsection \<open>\<open>ILIKE\<close>\<close>

text \<open>
  In a \<open>LIKE\<close> pattern \<open>%\<close> stands for any string, \<open>_\<close> for any one character, and a
  backslash makes the character after it literal. \<open>ILIKE\<close> applies \<open>lower()\<close> to the pattern
  and to the text and matches then. What \<open>lower()\<close> does to text outside ASCII is decided by
  the locale and the encoding of the database (nothing under the \<open>C\<close> locale, the letters of
  the locale under a UTF-8 one), not by the repository: the model takes it from the world, as
  a function on strings. Text of ASCII characters only is folded as ASCII, \<open>A\<close> to \<open>Z\<close>
  becoming \<open>a\<close> to \<open>z\<close>.
\<close>

definition lower :: "char \<Rightarrow> char" where
  "lower c =
    (let n = (of_char c :: nat) in if 65 \<le> n \<and> n \<le> 90 then char_of (n + 32) else c)"

fun like :: "string \<Rightarrow> string \<Rightarrow> bool" where
  "like [] t = (t = [])"
| "like (c # p) t =
    (if c = CHR ''%'' then
       like p t \<or> (case t of [] \<Rightarrow> False | _ # t' \<Rightarrow> like (c # p) t')
     else if c = CHR ''_'' then
       (case t of [] \<Rightarrow> False | _ # t' \<Rightarrow> like p t')
     else if c = CHR 0x5C then
       (case p of
          [] \<Rightarrow> False
        | e # p' \<Rightarrow> (case t of [] \<Rightarrow> False | x # t' \<Rightarrow> x = e \<and> like p' t'))
     else
       (case t of [] \<Rightarrow> False | x # t' \<Rightarrow> x = c \<and> like p t'))"

text \<open>A pattern whose last character is an unpaired backslash is an error.\<close>

fun dangling_escape :: "string \<Rightarrow> bool" where
  "dangling_escape [] = False"
| "dangling_escape [c] = (c = CHR 0x5C)"
| "dangling_escape (c # e # p) =
     (if c = CHR 0x5C then dangling_escape p else dangling_escape (e # p))"

definition is_ascii :: "string \<Rightarrow> bool" where
  "is_ascii s = list_all (\<lambda>c. (of_char c :: nat) < 128) s"

definition pg_lower :: "(string \<Rightarrow> string) \<Rightarrow> string \<Rightarrow> string" where
  "pg_lower lc s = (if is_ascii s then map lower s else lc s)"

definition ilike :: "(string \<Rightarrow> string) \<Rightarrow> string \<Rightarrow> string \<Rightarrow> bool" where
  "ilike lc t pattern = like (pg_lower lc pattern) (pg_lower lc t)"

text \<open>The aggregating query with \<open>WHERE p.full_name ILIKE %s\<close> and the \<open>ORDER BY\<close>.\<close>

definition select_persons_ilike :: "(string \<Rightarrow> string) \<Rightarrow> string \<Rightarrow> agg_row list stmt" where
  "select_persons_ilike lc pattern d =
    (if \<not> nul_free pattern then (Inl ValueError, d)
     else case select_persons (\<lambda>p. ilike lc (p_full_name p) pattern) True d of
       (Inl e, d') \<Rightarrow> (Inl e, d')
     | (Inr rows, d') \<Rightarrow>
         if dangling_escape pattern then (Inl DataError, d') else (Inr rows, d'))"

section \<open>What Python makes of a fetched row\<close>

text \<open>\<open>list(filter(None, xs))\<close> keeps the truthy elements: neither \<open>None\<close> nor \<open>''\<close>.\<close>

definition filter_none :: "string option list \<Rightarrow> string list" where
  "filter_none xs = filter (\<lambda>s. s \<noteq> []) (map the (filter (\<lambda>x. x \<noteq> None) xs))"

text \<open>\<open>xs or []\<close>\<close>

fun or_empty :: "'a list option \<Rightarrow> 'a list" where
  "or_empty None = []"
| "or_empty (Some xs) = xs"

text \<open>The dict a read operation returns: the person's columns and five lists.\<close>

record person_record =
  r_person :: person_row
  r_mobile_numbers :: "string list"
  r_whatsapp_numbers :: "string list"
  r_facebook_links :: "string list"
  r_website_links :: "string list"
  r_pdf_urls :: "string list"

text \<open>
  The dict display of \<open>_get_all_records\<close> and \<open>_search_records\<close>, where every array is
  read as \<open>record[k] or []\<close>.
\<close>

definition materialize :: "agg_row \<Rightarrow> person_record" where
  "materialize record =
     \<lparr> r_person = a_person record,
       r_mobile_numbers = filter_none (or_empty (a_mobile_numbers record)),
       r_whatsapp_numbers = filter_none (or_empty (a_whatsapp_numbers record)),
       r_facebook_links = filter_none (or_empty (a_facebook_links record)),
       r_website_links = filter_none (or_empty (a_website_links record)),
       r_pdf_urls = filter_none (or_empty (a_pdf_urls record)) \<rparr>"

text \<open>
  The dict display of \<open>_get_record\<close>: the four contact arrays are passed to \<open>filter\<close> as
  they are, and \<open>filter(None, None)\<close> raises \<open>TypeError\<close>; only \<open>pdf_urls\<close> has \<open>or []\<close>.
\<close>

definition materialize_strict :: "agg_row \<Rightarrow> error + person_record" where
  "materialize_strict record =
     (case (a_mobile_numbers record, a_whatsapp_numbers record,
            a_facebook_links record, a_website_links record) of
        (Some ms, Some ws, Some fs, Some ss) \<Rightarrow>
          Inr \<lparr> r_person = a_person record,
                r_mobile_numbers = filter_none ms,
                r_whatsapp_numbers = filter_none ws,
                r_facebook_links = filter_none fs,
                r_website_links = filter_none ss,
                r_pdf_urls = filter_none (or_empty (a_pdf_urls record)) \<rparr>
      | _ \<Rightarrow> Inl TypeError)"

section \<open>The executor\<close>

text \<open>
  The world outside the repository: the committed database, the \<open>lower()\<close> of its locale,
  the wall clock (microseconds), the connectivity faults still to come (one entry per attempt
  of \<open>execute_with_retry\<close>, none when the list is used up), and the log of what the executor
  did.

  A fault strikes in \<open>get_connection\<close>, while the statements of the operation run, or in
  \<open>commit\<close>. The statements that ran before the connection failed may have taken values
  from the three sequences: \<open>AtExecute e a b c\<close> says how many from each.
\<close>

datatype fault = NoFault | AtAcquire error | AtExecute error nat nat nat | AtCommit error

datatype event = GetConn | Commit | Rollback | Sleep nat | PutConn | Except error

record world =
  db :: database
  lc_lower :: "string \<Rightarrow> string"
  clock :: timestamp
  faults :: "fault list"
  trace :: "event list"

definition next_fault :: "world \<Rightarrow> fault" where
  "next_fault w = (case faults w of [] \<Rightarrow> NoFault | f # _ \<Rightarrow> f)"

definition log :: "event \<Rightarrow> world \<Rightarrow> world" where
  "log ev w = w\<lparr>trace := trace w @ [ev]\<rparr>"

text \<open>\<open>time.sleep(n)\<close>\<close>

definition sleep :: "nat \<Rightarrow> world \<Rightarrow> world" where
  "sleep n w = log (Sleep n) (w\<lparr>clock := clock w + int n * 1000000\<rparr>)"

text \<open>
  \<open>conn.rollback()\<close> discards the rows the transaction wrote. A sequence is not rolled back:
  it never hands a value out twice, so each counter stays at the larger of its committed and
  its working value (the working one, unless the transaction had dropped the table).
\<close>

definition rollback :: "database \<Rightarrow> database \<Rightarrow> database" where
  "rollback committed working = committed
     \<lparr> persons_id_seq := max (persons_id_seq committed) (persons_id_seq working),
       contact_info_id_seq := max (contact_info_id_seq committed) (contact_info_id_seq working),
       documents_id_seq := max (documents_id_seq committed) (documents_id_seq working) \<rparr>"

text \<open>The sequence values the statements of an interrupted operation took.\<close>

definition taken :: "nat \<Rightarrow> nat \<Rightarrow> nat \<Rightarrow> database \<Rightarrow> database" where
  "taken a b c d = d
     \<lparr> persons_id_seq := persons_id_seq d + int a,
       contact_info_id_seq := contact_info_id_seq d + int b,
       documents_id_seq := documents_id_seq d + int c \<rparr>"

text \<open>
  The body of the \<open>try\<close> block: \<open>conn = self.get_connection()\<close>, the operation on a cursor of
  the connection, \<open>conn.commit()\<close>. The result comes with \<open>conn\<close>: \<open>None\<close> when
  \<open>get_connection\<close> raised, else the connection's working copy of the database. The
  operation reads the clock through its first argument. When the connection fails while the
  statements run, the rows they wrote are lost with the transaction, and the working copy
  is left with the sequence values they took.
\<close>

definition try_block ::
  "(timestamp \<Rightarrow> 'a stmt) \<Rightarrow> world \<Rightarrow> (error + 'a) \<times> database option \<times> world" where
  "try_block operation w =
    (let f = next_fault w; w0 = w\<lparr>faults := tl (faults w)\<rparr> in
     case f of
       AtAcquire e \<Rightarrow> (Inl e, None, w0)
     | AtExecute e a b c \<Rightarrow> (Inl e, Some (taken a b c (db w0)), log GetConn w0)
     | _ \<Rightarrow>
        (case operation (clock w0) (db w0) of
           (Inl e, working) \<Rightarrow> (Inl e, Some working, log GetConn w0)
         | (Inr result, working) \<Rightarrow>
             (case f of
                AtCommit e \<Rightarrow> (Inl e, Some working, log GetConn w0)
              | _ \<Rightarrow> (Inr result, Some working, log Commit ((log GetConn w0)\<lparr>db := working\<rparr>)))))"

text \<open>\<open>if conn: try: conn.rollback() except: pass\<close>\<close>

fun rollback_if_conn :: "database option \<Rightarrow> world \<Rightarrow> world" where
  "rollback_if_conn None w = w"
| "rollback_if_conn (Some working) w = log Rollback (w\<lparr>db := rollback (db w) working\<rparr>)"

text \<open>\<open>finally: if conn: self.return_connection(conn)\<close>\<close>

fun return_connection :: "database option \<Rightarrow> world \<Rightarrow> world" where
  "return_connection None w = w"
| "return_connection (Some _) w = log PutConn w"

text \<open>
  \<open>for attempt in range(max_retries)\<close> with its \<open>try\<close> statement. The \<open>finally\<close> clause runs
  after the handler, hence after the sleep. When the range is used up the function ends
  without a \<open>return\<close>, which yields \<open>None\<close>.
\<close>

fun attempts ::
  "nat list \<Rightarrow> nat \<Rightarrow> (timestamp \<Rightarrow> 'a stmt) \<Rightarrow> world \<Rightarrow> (error + 'a option) \<times> world" where
  "attempts [] max_retries operation w = (Inr None, w)"
| "attempts (attempt # rest) max_retries operation w =
    (case try_block operation w of
       (Inr result, conn, w') \<Rightarrow> (Inr (Some result), return_connection conn w')
     | (Inl e, conn, w') \<Rightarrow>
         let w'' = rollback_if_conn conn (log (Except e) w') in
         if transient e then
           (if attempt = max_retries - 1 then (Inl e, return_connection conn w'')
            else attempts rest max_retries operation (return_connection conn (sleep 1 w'')))
         else (Inl e, return_connection conn w''))"

definition execute_with_retry ::
  "(timestamp \<Rightarrow> 'a stmt) \<Rightarrow> nat \<Rightarrow> world \<Rightarrow> (error + 'a option) \<times> world" where
  "execute_with_retry operation max_retries w =
     attempts [0..<max_retries] max_retries operation w"

section \<open>The repository operations\<close>

subsection \<open>\<open>create_tables\<close>\<close>

definition inner_create_tables :: "timestamp \<Rightarrow> unit stmt" where
  "inner_create_tables now =
     andthen drop_persons (\<lambda>_.
     andthen drop_contact_info (\<lambda>_.
     andthen drop_documents (\<lambda>_.
     andthen create_persons (\<lambda>_.
     andthen create_contact_info_if_not_exists (\<lambda>_.
     create_documents_if_not_exists)))))"

text \<open>\<open>try: self.execute_with_retry(_create_tables) except Exception: raise\<close>\<close>

definition create_tables :: "world \<Rightarrow> (error + unit) \<times> world" where
  "create_tables w =
    (case execute_with_retry inner_create_tables 3 w of
       (Inl e, w') \<Rightarrow> (Inl e, w')
     | (Inr _, w') \<Rightarrow> (Inr (), w'))"

subsection \<open>\<open>add_record\<close>\<close>

text \<open>
  The parameter tuple of the person statements. \<open>record[k]\<close> raises \<open>KeyError\<close> on a missing
  key, \<open>record.get(k)\<close> gives \<open>None\<close>; \<open>image_data\<close> is
  \<open>Json(record.get('image_data')) if record.get('image_data') else None\<close>.
\<close>

definition values_of :: "payload \<Rightarrow> error + person_values" where
  "values_of record =
    (if full_name record = Missing \<or> father_name record = Missing \<or>
        mother_name record = Missing \<or> dob record = Missing \<or> gender record = Missing \<or>
        nid record = Missing \<or> permanent_address record = Missing \<or>
        present_address record = Missing
     then Inl KeyError
     else Inr \<lparr> v_full_name = get (full_name record),
                v_father_name = get (father_name record),
                v_mother_name = get (mother_name record),
                v_dob = get (dob record),
                v_gender = get (gender record),
                v_nid = get (nid record),
                v_voter_no = get (voter_no record),
                v_permanent_address = get (permanent_address record),
                v_present_address = get (present_address record),
                v_image_data = get (image_data record),
                v_description = get (description record) \<rparr>)"

text \<open>\<open>for x in record.get(k, []): cur.execute(...)\<close>\<close>

definition for_in :: "'a list field \<Rightarrow> ('a \<Rightarrow> unit stmt) \<Rightarrow> unit stmt" where
  "for_in f body = andthen (lift (get_list f)) (\<lambda>xs. for_each xs body)"

definition inner_add_record :: "timestamp \<Rightarrow> payload \<Rightarrow> int stmt" where
  "inner_add_record now record =
     andthen (lift (values_of record)) (\<lambda>v.
     andthen (insert_persons v now) (\<lambda>person_id.
     andthen (for_in (mobile_numbers record) (insert_contact_info person_id ''mobile'')) (\<lambda>_.
     andthen (for_in (whatsapp_numbers record) (insert_contact_info person_id ''whatsapp'')) (\<lambda>_.
     andthen (for_in (facebook_links record) (insert_contact_info person_id ''facebook'')) (\<lambda>_.
     andthen (for_in (website_links record) (insert_contact_info person_id ''website'')) (\<lambda>_.
     andthen (for_in (pdf_urls record) (\<lambda>u. insert_documents person_id u ''pdf'')) (\<lambda>_.
     returns person_id)))))))"

text \<open>
  \<open>try: return self.execute_with_retry(_add_record, record) except Exception: return None\<close>
\<close>

definition add_record :: "payload \<Rightarrow> world \<Rightarrow> int option \<times> world" where
  "add_record record w =
    (case execute_with_retry (\<lambda>now. inner_add_record now record) 3 w of
       (Inl e, w') \<Rightarrow> (None, w')
     | (Inr r, w') \<Rightarrow> (r, w'))"

subsection \<open>\<open>get_all_records\<close>\<close>

definition inner_get_all_records :: "timestamp \<Rightarrow> person_record list stmt" where
  "inner_get_all_records now =
     andthen (select_persons (\<lambda>p. True) True) (\<lambda>records.
     if records = [] then returns [] else returns (map materialize records))"

text \<open>
  \<open>try: return self.execute_with_retry(_get_all_records) or [] except Exception: return []\<close>
\<close>

definition get_all_records :: "world \<Rightarrow> person_record list \<times> world" where
  "get_all_records w =
    (case execute_with_retry inner_get_all_records 3 w of
       (Inl e, w') \<Rightarrow> ([], w')
     | (Inr r, w') \<Rightarrow> (or_empty r, w'))"

subsection \<open>\<open>get_record\<close>\<close>

text \<open>\<open>cur.fetchone()\<close> is the first row of the result, \<open>None\<close> when there is none.\<close>

definition inner_get_record :: "timestamp \<Rightarrow> int \<Rightarrow> person_record option stmt" where
  "inner_get_record now record_id =
     andthen (select_persons (\<lambda>p. p_id p = record_id) False) (\<lambda>rows.
     case rows of
       [] \<Rightarrow> returns None
     | record # _ \<Rightarrow> andthen (lift (materialize_strict record)) (\<lambda>r. returns (Some r)))"

text \<open>
  \<open>return self.execute_with_retry(_get_record, record_id)\<close>: there is no \<open>try\<close> statement
  around the call, so what the executor raises leaves \<open>get_record\<close>.
\<close>

definition get_record :: "int \<Rightarrow> world \<Rightarrow> (error + person_record option) \<times> world" where
  "get_record record_id w =
    (case execute_with_retry (\<lambda>now. inner_get_record now record_id) 3 w of
       (Inl e, w') \<Rightarrow> (Inl e, w')
     | (Inr None, w') \<Rightarrow> (Inr None, w')
     | (Inr (Some r), w') \<Rightarrow> (Inr r, w'))"

subsection \<open>\<open>update_record\<close>\<close>

definition inner_update_record :: "timestamp \<Rightarrow> int \<Rightarrow> payload \<Rightarrow> bool stmt" where
  "inner_update_record now record_id updated_data =
     andthen (lift (values_of updated_data)) (\<lambda>v.
     andthen (update_persons v record_id) (\<lambda>_.
     andthen (delete_contact_info_where record_id) (\<lambda>_.
     andthen (for_in (mobile_numbers updated_data) (insert_contact_info record_id ''mobile'')) (\<lambda>_.
     andthen (for_in (whatsapp_numbers updated_data) (insert_contact_info record_id ''whatsapp'')) (\<lambda>_.
     andthen (for_in (facebook_links updated_data) (insert_contact_info record_id ''facebook'')) (\<lambda>_.
     andthen (for_in (website_links updated_data) (insert_contact_info record_id ''website'')) (\<lambda>_.
     andthen (if has_key (pdf_urls updated_data)
              then andthen (delete_documents_where record_id) (\<lambda>_.
                   for_in (pdf_urls updated_data) (\<lambda>u. insert_documents record_id u ''pdf''))
              else returns ()) (\<lambda>_.
     returns True))))))))"

text \<open>
  \<open>try: return self.execute_with_retry(_update_record, ...) except Exception: return False\<close>.
  A \<open>None\<close> from the executor is falsy.
\<close>

definition update_record :: "int \<Rightarrow> payload \<Rightarrow> world \<Rightarrow> bool \<times> world" where
  "update_record record_id updated_data w =
    (case execute_with_retry (\<lambda>now. inner_update_record now record_id updated_data) 3 w of
       (Inl e, w') \<Rightarrow> (False, w')
     | (Inr None, w') \<Rightarrow> (False, w')
     | (Inr (Some b), w') \<Rightarrow> (b, w'))"

subsection \<open>\<open>search_records\<close>\<close>

text \<open>
  The parameter is \<open>f'%{query}%'\<close>; the database it is sent to folds case by its locale.
\<close>

definition inner_search_records ::
  "(string \<Rightarrow> string) \<Rightarrow> timestamp \<Rightarrow> string \<Rightarrow> person_record list stmt" where
  "inner_search_records lc now query =
     andthen (select_persons_ilike lc (''%'' @ query @ ''%'')) (\<lambda>records.
     if records = [] then returns [] else returns (map materialize records))"

definition search_records :: "string \<Rightarrow> world \<Rightarrow> person_record list \<times> world" where
  "search_records query w =
    (case execute_with_retry (\<lambda>now. inner_search_records (lc_lower w) now query) 3 w of
       (Inl e, w') \<Rightarrow> ([], w')
     | (Inr r, w') \<Rightarrow> (or_empty r, w'))"

subsection \<open>\<open>delete_record\<close> and \<open>delete_all_records\<close>\<close>

definition inner_delete_record :: "timestamp \<Rightarrow> int \<Rightarrow> bool stmt" where
  "inner_delete_record now record_id =
     andthen (delete_contact_info_where record_id) (\<lambda>_.
     andthen (delete_documents_where record_id) (\<lambda>_.
     andthen (delete_persons (\<lambda>p. p_id p = record_id)) (\<lambda>_.
     returns True)))"

definition delete_record :: "int \<Rightarrow> world \<Rightarrow> bool \<times> world" where
  "delete_record record_id w =
    (case execute_with_retry (\<lambda>now. inner_delete_record now record_id) 3 w of
       (Inl e, w') \<Rightarrow> (False, w')
     | (Inr None, w') \<Rightarrow> (False, w')
     | (Inr (Some b), w') \<Rightarrow> (b, w'))"

definition inner_delete_all_records :: "timestamp \<Rightarrow> bool stmt" where
  "inner_delete_all_records now =
     andthen delete_contact_info (\<lambda>_.
     andthen delete_documents (\<lambda>_.
     andthen (delete_persons (\<lambda>p. True)) (\<lambda>_.
     returns True)))"

definition delete_all_records :: "world \<Rightarrow> bool \<times> world" where
  "delete_all_records w =
    (case execute_with_retry inner_delete_all_records 3 w of
       (Inl e, w') \<Rightarrow> (False, w')
     | (Inr None, w') \<Rightarrow> (False, w')
     | (Inr (Some b), w') \<Rightarrow> (b, w'))"

section \<open>Vocabulary of the properties\<close>

text \<open>
  The definitions of this section are not code of the repository: they name the inputs and
  the states the properties below speak about.
\<close>

subsection \<open>Payloads the database accepts\<close>

definition text_within :: "nat \<Rightarrow> string \<Rightarrow> bool" where
  "text_within n s = (nul_free s \<and> length s \<le> n)"

fun required :: "('a \<Rightarrow> bool) \<Rightarrow> 'a field \<Rightarrow> bool" where
  "required P (Val v) = P v"
| "required P PyNone = False"
| "required P Missing = False"

fun optional :: "('a \<Rightarrow> bool) \<Rightarrow> 'a field \<Rightarrow> bool" where
  "optional P (Val v) = P v"
| "optional P PyNone = True"
| "optional P Missing = True"

fun each_of :: "('a \<Rightarrow> bool) \<Rightarrow> 'a list field \<Rightarrow> bool" where
  "each_of P (Val xs) = list_all P xs"
| "each_of P PyNone = False"
| "each_of P Missing = True"

text \<open>
  A valid payload: the mandatory keys hold strings (a date for \<open>dob\<close>) that fit their
  columns, the optional keys are absent, \<open>None\<close> or fitting, and the child lists, where
  present, are lists of strings that fit.
\<close>

definition valid_payload :: "payload \<Rightarrow> bool" where
  "valid_payload record =
    (required (text_within 255) (full_name record) \<and>
     required (text_within 255) (father_name record) \<and>
     required (text_within 255) (mother_name record) \<and>
     required (\<lambda>_. True) (dob record) \<and>
     required (text_within 50) (gender record) \<and>
     required (text_within 100) (nid record) \<and>
     optional (text_within 100) (voter_no record) \<and>
     required nul_free (permanent_address record) \<and>
     required nul_free (present_address record) \<and>
     optional (\<lambda>i. nul_free (url i) \<and> nul_free (preview_data i)) (image_data record) \<and>
     optional nul_free (description record) \<and>
     each_of (text_within 255) (mobile_numbers record) \<and>
     each_of (text_within 255) (whatsapp_numbers record) \<and>
     each_of (text_within 255) (facebook_links record) \<and>
     each_of (text_within 255) (website_links record) \<and>
     each_of nul_free (pdf_urls record))"

text \<open>The list a child key stands for.\<close>

fun items :: "'a list field \<Rightarrow> 'a list" where
  "items (Val xs) = xs"
| "items PyNone = []"
| "items Missing = []"

text \<open>The row that holds the scalar fields of a valid payload.\<close>

definition stored_row :: "payload \<Rightarrow> int \<Rightarrow> timestamp \<Rightarrow> person_row" where
  "stored_row record i created =
     \<lparr> p_id = i,
       p_full_name = the (get (full_name record)),
       p_father_name = the (get (father_name record)),
       p_mother_name = the (get (mother_name record)),
       p_dob = the (get (dob record)),
       p_gender = the (get (gender record)),
       p_nid = the (get (nid record)),
       p_voter_no = get (voter_no record),
       p_permanent_address = the (get (permanent_address record)),
       p_present_address = the (get (present_address record)),
       p_image_data = get (image_data record),
       p_description = get (description record),
       p_created_at = created \<rparr>"

subsection \<open>Stored children\<close>

text \<open>The values, in table order, of a person's contact rows of one kind, and of its documents.\<close>

definition values_for :: "contact_row list \<Rightarrow> int \<Rightarrow> string \<Rightarrow> string list" where
  "values_for cis person_id k =
     map ci_value (filter (\<lambda>c. ci_person_id c = person_id \<and> ci_type c = k) cis)"

definition urls_for :: "document_row list \<Rightarrow> int \<Rightarrow> string \<Rightarrow> string list" where
  "urls_for ds person_id k =
     map d_url (filter (\<lambda>x. d_person_id x = person_id \<and> d_type x = k) ds)"

text \<open>The rows a loop of inserts appends, given the last value of the sequence.\<close>

fun new_contacts :: "int \<Rightarrow> int \<Rightarrow> string \<Rightarrow> string list \<Rightarrow> contact_row list" where
  "new_contacts s person_id k [] = []"
| "new_contacts s person_id k (v # vs) =
     \<lparr>ci_id = s + 1, ci_person_id = person_id, ci_type = k, ci_value = v\<rparr>
       # new_contacts (s + 1) person_id k vs"

fun new_documents :: "int \<Rightarrow> int \<Rightarrow> string \<Rightarrow> string list \<Rightarrow> document_row list" where
  "new_documents s person_id k [] = []"
| "new_documents s person_id k (u # us) =
     \<lparr>d_id = s + 1, d_person_id = person_id, d_url = u, d_type = k\<rparr>
       # new_documents (s + 1) person_id k us"

text \<open>The contact rows the four loops of \<open>_add_record\<close> and \<open>_update_record\<close> append.\<close>

definition payload_contacts :: "int \<Rightarrow> int \<Rightarrow> payload \<Rightarrow> contact_row list" where
  "payload_contacts s person_id record =
    (let ms = items (mobile_numbers record); ws = items (whatsapp_numbers record);
         fs = items (facebook_links record); ss = items (website_links record)
     in new_contacts s person_id ''mobile'' ms
      @ new_contacts (s + int (length ms)) person_id ''whatsapp'' ws
      @ new_contacts (s + int (length ms) + int (length ws)) person_id ''facebook'' fs
      @ new_contacts (s + int (length ms) + int (length ws) + int (length fs))
          person_id ''website'' ss)"

definition contact_count :: "payload \<Rightarrow> int" where
  "contact_count record =
     int (length (items (mobile_numbers record))) + int (length (items (whatsapp_numbers record)))
   + int (length (items (facebook_links record))) + int (length (items (website_links record)))"

subsection \<open>States the repository can reach\<close>

text \<open>
  The schema exists, ids are unique and were handed out by the sequences, and every child row
  references a stored person.
\<close>

definition wf :: "database \<Rightarrow> bool" where
  "wf d =
    (case (persons d, contact_info d, documents d) of
       (Some ps, Some cis, Some ds) \<Rightarrow>
         distinct (map p_id ps) \<and>
         (\<forall>p \<in> set ps. p_id p \<le> persons_id_seq d) \<and>
         (\<forall>c \<in> set cis. ci_id c \<le> contact_info_id_seq d \<and> ci_person_id c \<in> p_id ` set ps) \<and>
         (\<forall>x \<in> set ds. d_id x \<le> documents_id_seq d \<and> d_person_id x \<in> p_id ` set ps)
     | _ \<Rightarrow> False)"

text \<open>The database after \<open>_add_record\<close> has run without raising.\<close>

definition after_add :: "timestamp \<Rightarrow> payload \<Rightarrow> database \<Rightarrow> database" where
  "after_add now record d =
    (let person_id = persons_id_seq d + 1 in
     d\<lparr> persons := Some (the (persons d) @ [stored_row record person_id now]),
        persons_id_seq := person_id,
        contact_info := Some (the (contact_info d)
          @ payload_contacts (contact_info_id_seq d) person_id record),
        contact_info_id_seq := contact_info_id_seq d + contact_count record,
        documents := Some (the (documents d)
          @ new_documents (documents_id_seq d) person_id ''pdf'' (items (pdf_urls record))),
        documents_id_seq := documents_id_seq d + int (length (items (pdf_urls record))) \<rparr>)"

text \<open>
  The database after \<open>_update_record\<close> has run without raising on a stored person: the
  documents are replaced only when the payload has the key \<open>pdf_urls\<close>.
\<close>

definition after_update :: "int \<Rightarrow> payload \<Rightarrow> database \<Rightarrow> database" where
  "after_update record_id record d =
    d\<lparr> persons := Some (map (\<lambda>r. if p_id r = record_id
                                  then stored_row record (p_id r) (p_created_at r) else r)
                         (the (persons d))),
       contact_info := Some (filter (\<lambda>c. ci_person_id c \<noteq> record_id) (the (contact_info d))
          @ payload_contacts (contact_info_id_seq d) record_id record),
       contact_info_id_seq := contact_info_id_seq d + contact_count record,
       documents :=
         (if has_key (pdf_urls record)
          then Some (filter (\<lambda>x. d_person_id x \<noteq> record_id) (the (documents d))
                 @ new_documents (documents_id_seq d) record_id ''pdf'' (items (pdf_urls record)))
          else documents d),
       documents_id_seq :=
         (if has_key (pdf_urls record)
          then documents_id_seq d + int (length (items (pdf_urls record)))
          else documents_id_seq d) \<rparr>"

text \<open>A world in which no connectivity fault is scheduled.\<close>

definition calm :: "world \<Rightarrow> bool" where
  "calm w = (faults w = [])"

subsection \<open>Example worlds and payloads\<close>

text \<open>
  The world right after \<open>create_tables\<close>: the three tables exist and are empty. The
  database has the \<open>C\<close> locale, which folds no character outside ASCII.
\<close>

definition ready :: world where
  "ready = \<lparr> db = \<lparr> persons = Some [], contact_info = Some [], documents = Some [],
                      persons_id_seq = 0, contact_info_id_seq = 0, documents_id_seq = 0 \<rparr>,
              lc_lower = (\<lambda>s. s), clock = 1000, faults = [], trace = [] \<rparr>"

text \<open>A payload as the entry form builds it; the mobile number is entered twice.\<close>

definition alice :: payload where
  "alice = \<lparr> full_name = Val ''Alice Roy'', father_name = Val ''Amal Roy'',
              mother_name = Val ''Bina Roy'', dob = Val 7000, gender = Val ''Female'',
              nid = Val ''1990123'', voter_no = Val [],
              permanent_address = Val ''12 Lake Road'', present_address = Val ''12 Lake Road'',
              image_data = PyNone, description = Val [],
              mobile_numbers = Val [''017'', ''017''], whatsapp_numbers = Val [''018''],
              facebook_links = Val [''fb.example/alice''], website_links = Val [''alice.example''],
              pdf_urls = Val [''img.example/p1''] \<rparr>"

subsection \<open>Observations on the executor\<close>

text \<open>Two databases hold the same tables (their sequences may differ).\<close>

definition same_tables :: "database \<Rightarrow> database \<Rightarrow> bool" where
  "same_tables d d' =
     (persons d = persons d' \<and> contact_info d = contact_info d' \<and> documents d = documents d')"

text \<open>The exceptions handled and the delays slept in a stretch of the log, in order.\<close>

fun failures :: "event list \<Rightarrow> error list" where
  "failures [] = []"
| "failures (Except e # es) = e # failures es"
| "failures (_ # es) = failures es"

fun sleeps :: "event list \<Rightarrow> nat list" where
  "sleeps [] = []"
| "sleeps (Sleep n # es) = n # sleeps es"
| "sleeps (_ # es) = sleeps es"

text \<open>Every attempt ends in a commit or in an exception.\<close>

definition attempts_made :: "event list \<Rightarrow> nat" where
  "attempts_made es = count_list es Commit + length (failures es)"

text \<open>
  The failures that are to be retried: the two connectivity errors of the driver.
\<close>

definition connectivity_error :: "error \<Rightarrow> bool" where
  "connectivity_error e = (e = OperationalError \<or> e = InterfaceError)"

text \<open>
  The order of events in the log of one call. The call is a sequence of attempts. The last
  one commits on a connection and releases it, or fails: without a connection, or with one
  that is rolled back and released. An attempt before the last fails in one of these two
  ways, and sleeps one second after the rollback, before it releases the connection.
\<close>

inductive shape :: "event list \<Rightarrow> bool" where
  committed: "shape [GetConn, Commit, PutConn]"
| no_connection: "shape [Except e]"
| failed: "shape [GetConn, Except e, Rollback, PutConn]"
| retry_no_connection: "shape es \<Longrightarrow> shape (Except e # Sleep 1 # es)"
| retry_failed: "shape es \<Longrightarrow> shape (GetConn # Except e # Rollback # Sleep 1 # PutConn # es)"

code_pred shape .

text \<open>
  What the log of one call of \<open>execute_with_retry\<close> with \<open>n\<close> permitted attempts must look
  like, given the call's result: at most \<open>n\<close> attempts in the order above, a one-second sleep
  between two attempts, only transient failures followed by another attempt, the result
  being the last failure or following the one commit, and every connection rolled back
  unless committed and returned to the pool.
\<close>

definition report :: "nat \<Rightarrow> event list \<Rightarrow> error + 'a option \<Rightarrow> bool" where
  "report n es res =
    (attempts_made es \<le> n \<and> (0 < n \<longrightarrow> 1 \<le> attempts_made es \<and> shape es) \<and>
     sleeps es = replicate (attempts_made es - 1) 1 \<and>
     list_all transient (butlast (failures es)) \<and>
     (case res of
        Inl e \<Rightarrow> failures es \<noteq> [] \<and> last (failures es) = e \<and> count_list es Commit = 0 \<and>
                 (transient e \<longrightarrow> attempts_made es = n)
      | Inr r \<Rightarrow> list_all transient (failures es) \<and>
                 (0 < n \<longrightarrow> r \<noteq> None \<and> count_list es Commit = 1 \<and>
                    drop (length es - 2) es = [Commit, PutConn])) \<and>
     count_list es Rollback + count_list es Commit = count_list es GetConn \<and>
     count_list es PutConn = count_list es GetConn)"

text \<open>The store after \<open>alice\<close> has been added to the empty one.\<close>

definition populated :: world where
  "populated = snd (add_record alice ready)"

text \<open>The same payload with no mobile number.\<close>

definition no_mobile :: payload where
  "no_mobile = alice\<lparr>mobile_numbers := Val []\<rparr>"

text \<open>A world whose next two attempts lose the connection, once while executing, once at commit.\<close>

definition flaky :: world where
  "flaky = ready\<lparr>faults := [AtExecute OperationalError 1 0 0, AtCommit InterfaceError]\<rparr>"

subsection \<open>Search strings\<close>







text \<open>The same world at a later reading of the clock.\<close>

definition at_time :: "timestamp \<Rightarrow> world \<Rightarrow> world" where
  "at_time t w = w\<lparr>clock := t\<rparr>"

text \<open>The records of a listing are in newest-first order.\<close>

definition newest_first :: "person_record list \<Rightarrow> bool" where
  "newest_first rs =
     sorted_wrt (\<lambda>a b. p_created_at (r_person b) \<le> p_created_at (r_person a)) rs"

subsection \<open>Frames\<close>

text \<open>A statement leaves an observation of the database as it was, whether it raises or not.\<close>

definition keeps :: "(database \<Rightarrow> 'b) \<Rightarrow> 'a stmt \<Rightarrow> bool" where
  "keeps f m = (\<forall>d. f (snd (m d)) = f d)"

text \<open>
  What \<open>update_record\<close> on one id must not touch: the \<open>id\<close> and \<open>created_at\<close> of every
  person, and the rows of the other persons in the three tables.
\<close>

definition ids_and_created_at :: "database \<Rightarrow> (int \<times> timestamp) list option" where
  "ids_and_created_at d = map_option (map (\<lambda>p. (p_id p, p_created_at p))) (persons d)"

definition other_rows ::
  "int \<Rightarrow> database \<Rightarrow> person_row list option \<times> contact_row list option \<times> document_row list option"
  where
  "other_rows record_id d =
     (map_option (filter (\<lambda>p. p_id p \<noteq> record_id)) (persons d),
      map_option (filter (\<lambda>c. ci_person_id c \<noteq> record_id)) (contact_info d),
      map_option (filter (\<lambda>x. d_person_id x \<noteq> record_id)) (documents d))"

text \<open>An update payload that carries no child: two lists are empty, three keys are absent.\<close>

definition childless :: payload where
  "childless = alice\<lparr>mobile_numbers := Val [], whatsapp_numbers := Missing,
     facebook_links := Val [], website_links := Missing, pdf_urls := Missing\<rparr>"

text \<open>Two update payloads for \<open>alice\<close>: one without the key \<open>pdf_urls\<close>, one with an empty list.\<close>

definition without_pdf_key :: payload where
  "without_pdf_key = alice\<lparr>pdf_urls := Missing\<rparr>"

definition edited :: payload where
  "edited = alice\<lparr>full_name := Val ''Alice R. Roy'', mobile_numbers := Val [''019''],
     pdf_urls := Val []\<rparr>"

section \<open>Lemmas about the model\<close>

subsection \<open>Sequencing and the executor without faults\<close>

lemma andthen_Inr: "m d = (Inr a, d') \<Longrightarrow> andthen m f d = f a d'"
  by (simp add: andthen_def)

lemma andthen_Inl: "m d = (Inl e, d') \<Longrightarrow> andthen m f d = (Inl e, d')"
  by (simp add: andthen_def)

lemma upt_3: "[0..<3] = [0, 1, 2]"
  by (simp add: upt_rec)

lemma execute_ok:
  assumes "faults w = []" and "operation (clock w) (db w) = (Inr r, d')"
  shows "execute_with_retry operation 3 w =
           (Inr (Some r), w\<lparr>db := d', trace := trace w @ [GetConn, Commit, PutConn]\<rparr>)"
  using assms
  by (simp add: execute_with_retry_def upt_3 try_block_def next_fault_def log_def)

lemma execute_raise:
  assumes "faults w = []" and "operation (clock w) (db w) = (Inl e, d')" and "\<not> transient e"
  shows "execute_with_retry operation 3 w =
           (Inl e, w\<lparr>db := rollback (db w) d',
                     trace := trace w @ [GetConn, Except e, Rollback, PutConn]\<rparr>)"
  using assms
  by (simp add: execute_with_retry_def upt_3 try_block_def next_fault_def log_def)

subsection \<open>The loops of inserts\<close>

lemma for_each_insert_contact_info:
  assumes "contact_info d = Some rows"
    and "references_person d person_id"
    and "nul_free k" and "length k \<le> 50"
    and "\<forall>v \<in> set vs. nul_free v \<and> length v \<le> 255"
    and "\<forall>c \<in> set rows. ci_id c \<le> contact_info_id_seq d"
  shows "for_each vs (insert_contact_info person_id k) d =
    (Inr (), d\<lparr>contact_info := Some (rows @ new_contacts (contact_info_id_seq d) person_id k vs),
              contact_info_id_seq := contact_info_id_seq d + int (length vs)\<rparr>)"
  using assms
proof (induction vs arbitrary: d rows)
  case Nil
  then show ?case by simp
next
  case (Cons v vs)
  let ?s = "contact_info_id_seq d"
  let ?row = "\<lparr>ci_id = ?s + 1, ci_person_id = person_id, ci_type = k, ci_value = v\<rparr>"
  let ?d1 = "d\<lparr>contact_info_id_seq := ?s + 1, contact_info := Some (rows @ [?row])\<rparr>"
  have fresh: "?s + 1 \<notin> ci_id ` set rows"
    using Cons.prems(6) by force
  have step: "insert_contact_info person_id k v d = (Inr (), ?d1)"
    using Cons.prems fresh
    by (simp add: insert_contact_info_def fits_def varchar_def Let_def)
  have "for_each vs (insert_contact_info person_id k) ?d1 =
    (Inr (), ?d1\<lparr>contact_info :=
                 Some ((rows @ [?row]) @ new_contacts (contact_info_id_seq ?d1) person_id k vs),
               contact_info_id_seq := contact_info_id_seq ?d1 + int (length vs)\<rparr>)"
    using Cons.prems by (intro Cons.IH) (auto simp: references_person_def)
  then show ?case
    using step by (simp add: add.commute add.left_commute)
qed

lemma for_each_insert_documents:
  assumes "documents d = Some rows"
    and "references_person d person_id"
    and "nul_free k" and "length k \<le> 50"
    and "\<forall>u \<in> set us. nul_free u"
    and "\<forall>x \<in> set rows. d_id x \<le> documents_id_seq d"
  shows "for_each us (\<lambda>u. insert_documents person_id u k) d =
    (Inr (), d\<lparr>documents := Some (rows @ new_documents (documents_id_seq d) person_id k us),
              documents_id_seq := documents_id_seq d + int (length us)\<rparr>)"
  using assms
proof (induction us arbitrary: d rows)
  case Nil
  then show ?case by simp
next
  case (Cons u us)
  let ?s = "documents_id_seq d"
  let ?row = "\<lparr>d_id = ?s + 1, d_person_id = person_id, d_url = u, d_type = k\<rparr>"
  let ?d1 = "d\<lparr>documents_id_seq := ?s + 1, documents := Some (rows @ [?row])\<rparr>"
  have fresh: "?s + 1 \<notin> d_id ` set rows"
    using Cons.prems(6) by force
  have step: "insert_documents person_id u k d = (Inr (), ?d1)"
    using Cons.prems fresh
    by (simp add: insert_documents_def fits_def varchar_def Let_def)
  have "for_each us (\<lambda>u. insert_documents person_id u k) ?d1 =
    (Inr (), ?d1\<lparr>documents :=
                 Some ((rows @ [?row]) @ new_documents (documents_id_seq ?d1) person_id k us),
               documents_id_seq := documents_id_seq ?d1 + int (length us)\<rparr>)"
    using Cons.prems by (intro Cons.IH) (auto simp: references_person_def)
  then show ?case
    using step by (simp add: add.commute add.left_commute)
qed

subsection \<open>What the aggregating query returns for a person\<close>

lemma left_join_nonempty: "left_join xs \<noteq> []"
  by (simp add: left_join_def)

lemma set_agg_contact_rows:
  "set (map (\<lambda>(ci, d). case_when_type k ci) (filter (\<lambda>(ci, d). ci_type_is k ci) (joined cis ds p)))
     = Some ` set (values_for cis (p_id p) k)"
proof -
  let ?L = "left_join (filter (\<lambda>ci. ci_person_id ci = p_id p) cis)"
  let ?R = "left_join (filter (\<lambda>d. d_person_id d = p_id p) ds)"
  obtain r where r: "r \<in> set ?R"
    using left_join_nonempty[of "filter (\<lambda>d. d_person_id d = p_id p) ds"]
    by (cases ?R) auto
  have "set (map (\<lambda>(ci, d). case_when_type k ci) (filter (\<lambda>(ci, d). ci_type_is k ci) (joined cis ds p)))
      = case_when_type k ` {ci \<in> set ?L. ci_type_is k ci}"
    using r by (auto simp: joined_def image_iff)
  also have "{ci \<in> set ?L. ci_type_is k ci}
      = Some ` {c \<in> set cis. ci_person_id c = p_id p \<and> ci_type c = k}"
    by (auto simp: left_join_def filter_empty_conv)
  also have "case_when_type k ` \<dots> = Some ` set (values_for cis (p_id p) k)"
    by (auto simp: values_for_def image_iff)
  finally show ?thesis .
qed

lemma set_agg_url_rows:
  "set (map (\<lambda>(ci, d). map_option d_url d) (filter (\<lambda>(ci, d). d_type_is k d) (joined cis ds p)))
     = Some ` set (urls_for ds (p_id p) k)"
proof -
  let ?L = "left_join (filter (\<lambda>ci. ci_person_id ci = p_id p) cis)"
  let ?R = "left_join (filter (\<lambda>d. d_person_id d = p_id p) ds)"
  obtain l where l: "l \<in> set ?L"
    using left_join_nonempty[of "filter (\<lambda>ci. ci_person_id ci = p_id p) cis"]
    by (cases ?L) auto
  have "set (map (\<lambda>(ci, d). map_option d_url d) (filter (\<lambda>(ci, d). d_type_is k d) (joined cis ds p)))
      = map_option d_url ` {d \<in> set ?R. d_type_is k d}"
    using l by (auto simp: joined_def image_iff)
  also have "{d \<in> set ?R. d_type_is k d}
      = Some ` {x \<in> set ds. d_person_id x = p_id p \<and> d_type x = k}"
    by (auto simp: left_join_def filter_empty_conv)
  also have "map_option d_url ` \<dots> = Some ` set (urls_for ds (p_id p) k)"
    by (auto simp: urls_for_def image_iff)
  finally show ?thesis .
qed

lemma mset_filter_none:
  assumes "distinct xs" and "set xs = Some ` set vs"
  shows "mset (filter_none xs) = mset (remdups (filter (\<lambda>s. s \<noteq> []) vs))"
proof -
  have d: "distinct (filter_none xs)"
    unfolding filter_none_def using assms(1)
    by (auto intro!: distinct_filter simp: distinct_map inj_on_def)
  have s: "set (filter_none xs) = set (filter (\<lambda>s. s \<noteq> []) vs)"
    unfolding filter_none_def using assms(2) by (auto simp: image_iff)
  show ?thesis
    using d s by (metis distinct_remdups_id set_eq_iff_mset_remdups_eq)
qed

lemma agg_contact_None:
  "agg_contact k (joined cis ds p) = None \<longleftrightarrow> values_for cis (p_id p) k = []"
proof -
  let ?xs = "map (\<lambda>(ci, d). case_when_type k ci) (filter (\<lambda>(ci, d). ci_type_is k ci) (joined cis ds p))"
  have S: "set ?xs = Some ` set (values_for cis (p_id p) k)"
    by (rule set_agg_contact_rows)
  have "?xs = [] \<longleftrightarrow> values_for cis (p_id p) k = []"
    using S by (metis image_is_empty set_empty)
  then show ?thesis
    by (simp add: agg_contact_def array_agg_distinct_def)
qed

lemma materialized_contacts:
  "mset (filter_none (or_empty (agg_contact k (joined cis ds p))))
     = mset (remdups (filter (\<lambda>s. s \<noteq> []) (values_for cis (p_id p) k)))"
proof -
  let ?xs = "map (\<lambda>(ci, d). case_when_type k ci) (filter (\<lambda>(ci, d). ci_type_is k ci) (joined cis ds p))"
  have S: "set ?xs = Some ` set (values_for cis (p_id p) k)"
    by (rule set_agg_contact_rows)
  show ?thesis
  proof (cases "?xs = []")
    case True
    then have "values_for cis (p_id p) k = []" using S by auto
    then show ?thesis
      using True by (simp add: agg_contact_def array_agg_distinct_def filter_none_def)
  next
    case False
    then have "agg_contact k (joined cis ds p) = Some (remdups ?xs)"
      by (simp add: agg_contact_def array_agg_distinct_def)
    moreover have "mset (filter_none (remdups ?xs))
        = mset (remdups (filter (\<lambda>s. s \<noteq> []) (values_for cis (p_id p) k)))"
      using S by (intro mset_filter_none) (simp_all only: distinct_remdups set_remdups)
    ultimately show ?thesis by simp
  qed
qed

lemma materialized_urls:
  "mset (filter_none (or_empty (agg_url k (joined cis ds p))))
     = mset (remdups (filter (\<lambda>s. s \<noteq> []) (urls_for ds (p_id p) k)))"
proof -
  let ?xs = "map (\<lambda>(ci, d). map_option d_url d) (filter (\<lambda>(ci, d). d_type_is k d) (joined cis ds p))"
  have S: "set ?xs = Some ` set (urls_for ds (p_id p) k)"
    by (rule set_agg_url_rows)
  show ?thesis
  proof (cases "?xs = []")
    case True
    then have "urls_for ds (p_id p) k = []" using S by auto
    then show ?thesis
      using True by (simp add: agg_url_def array_agg_distinct_def filter_none_def)
  next
    case False
    then have "agg_url k (joined cis ds p) = Some (remdups ?xs)"
      by (simp add: agg_url_def array_agg_distinct_def)
    moreover have "mset (filter_none (remdups ?xs))
        = mset (remdups (filter (\<lambda>s. s \<noteq> []) (urls_for ds (p_id p) k)))"
      using S by (intro mset_filter_none) (simp_all only: distinct_remdups set_remdups)
    ultimately show ?thesis by simp
  qed
qed

subsection \<open>Valid payloads\<close>

lemma required_get: "required P f \<Longrightarrow> f \<noteq> Missing \<and> (\<exists>v. get f = Some v \<and> P v)"
  by (cases f) auto

lemma optional_get: "optional P f \<Longrightarrow> holds P (get f)"
  by (cases f) auto

lemma text_within_fits: "text_within n s \<Longrightarrow> nul_free s \<and> fits n s \<and> varchar n s = s"
  by (simp add: text_within_def fits_def varchar_def)

lemma optional_varchar:
  "optional (text_within n) f \<Longrightarrow>
     holds nul_free (get f) \<and> holds (fits n) (get f) \<and> map_option (varchar n) (get f) = get f"
  by (cases f) (auto dest: text_within_fits)

lemma values_of_valid:
  assumes "valid_payload record"
  obtains v where "values_of record = Inr v" and "adaptable v" and "coercible v"
    and "not_null v" and "\<And>r. set_columns v r = stored_row record (p_id r) (p_created_at r)"
proof -
  note V = assms[unfolded valid_payload_def]
  from V obtain a where a: "full_name record \<noteq> Missing" "get (full_name record) = Some a" "text_within 255 a"
    using required_get by blast
  from V obtain b where b: "father_name record \<noteq> Missing" "get (father_name record) = Some b" "text_within 255 b"
    using required_get by blast
  from V obtain c where c: "mother_name record \<noteq> Missing" "get (mother_name record) = Some c" "text_within 255 c"
    using required_get by blast
  from V obtain dd where dd: "dob record \<noteq> Missing" "get (dob record) = Some dd"
    using required_get by blast
  from V obtain g where g: "gender record \<noteq> Missing" "get (gender record) = Some g" "text_within 50 g"
    using required_get by blast
  from V obtain n where n: "nid record \<noteq> Missing" "get (nid record) = Some n" "text_within 100 n"
    using required_get by blast
  from V obtain pa where pa: "permanent_address record \<noteq> Missing" "get (permanent_address record) = Some pa" "nul_free pa"
    using required_get by blast
  from V obtain pr where pr: "present_address record \<noteq> Missing" "get (present_address record) = Some pr" "nul_free pr"
    using required_get by blast
  from V have vo: "holds nul_free (get (voter_no record))" "holds (fits 100) (get (voter_no record))"
      "map_option (varchar 100) (get (voter_no record)) = get (voter_no record)"
    using optional_varchar by blast+
  from V have im: "holds (\<lambda>i. nul_free (url i) \<and> nul_free (preview_data i)) (get (image_data record))"
    using optional_get by blast
  from V have de: "holds nul_free (get (description record))"
    using optional_get by blast
  let ?v = "\<lparr> v_full_name = get (full_name record),
                v_father_name = get (father_name record),
                v_mother_name = get (mother_name record),
                v_dob = get (dob record),
                v_gender = get (gender record),
                v_nid = get (nid record),
                v_voter_no = get (voter_no record),
                v_permanent_address = get (permanent_address record),
                v_present_address = get (present_address record),
                v_image_data = get (image_data record),
                v_description = get (description record) \<rparr>"
  have 1: "values_of record = Inr ?v"
    using a b c dd g n pa pr by (simp add: values_of_def)
  have 2: "adaptable ?v"
    using a b c g n pa pr vo de by (simp add: adaptable_def text_within_def)
  have 3: "coercible ?v"
    using a b c g n vo im by (simp add: coercible_def text_within_fits)
  have 4: "not_null ?v"
    using a b c dd g n pa pr by (simp add: not_null_def)
  have 5: "set_columns ?v r = stored_row record (p_id r) (p_created_at r)" for r
    using a b c dd g n pa pr vo by (simp add: set_columns_def stored_row_def text_within_fits)
  show thesis
    using that[OF 1 2 3 4 5] .
qed

subsection \<open>The write operations on a valid payload\<close>

lemma for_in_items: "f \<noteq> PyNone \<Longrightarrow> for_in f body d = for_each (items f) body d"
  by (cases f) (simp_all add: for_in_def andthen_def lift_def)

lemma each_of_items: "each_of P f \<Longrightarrow> f \<noteq> PyNone \<and> (\<forall>x \<in> set (items f). P x)"
  by (cases f) (simp_all add: list_all_iff)

lemma wfE:
  assumes "wf d"
  obtains ps cis ds where "persons d = Some ps" and "contact_info d = Some cis"
    and "documents d = Some ds" and "distinct (map p_id ps)"
    and "\<forall>p \<in> set ps. p_id p \<le> persons_id_seq d"
    and "\<forall>c \<in> set cis. ci_id c \<le> contact_info_id_seq d \<and> ci_person_id c \<in> p_id ` set ps"
    and "\<forall>x \<in> set ds. d_id x \<le> documents_id_seq d \<and> d_person_id x \<in> p_id ` set ps"
  using assms by (auto simp: wf_def split: option.splits)

lemma kinds_ok:
  "nul_free ''mobile''" "nul_free ''whatsapp''" "nul_free ''facebook''" "nul_free ''website''"
  "nul_free ''pdf''"
  by (simp_all add: nul_free_def)

lemma bounded_append:
  fixes a :: int
  assumes "\<forall>c \<in> set xs. f c \<le> a" and "\<forall>c \<in> set ys. f c \<le> a + int n"
  shows "\<forall>c \<in> set (xs @ ys). f c \<le> a + int n"
  using assms by fastforce

lemma new_contacts_bounded:
  "\<forall>c \<in> set (new_contacts s p k vs). ci_id c \<le> s + int (length vs)"
  by (induction vs arbitrary: s) (auto, force)

lemma new_documents_bounded:
  "\<forall>x \<in> set (new_documents s p k us). d_id x \<le> s + int (length us)"
  by (induction us arbitrary: s) (auto, force)

text \<open>The four contact loops, run one after the other.\<close>

lemma contact_loops:
  assumes ci: "contact_info d = Some cis"
    and ref: "references_person d person_id"
    and le: "\<forall>c \<in> set cis. ci_id c \<le> contact_info_id_seq d"
    and v: "each_of (text_within 255) (mobile_numbers record)"
      "each_of (text_within 255) (whatsapp_numbers record)"
      "each_of (text_within 255) (facebook_links record)"
      "each_of (text_within 255) (website_links record)"
  shows "andthen (for_in (mobile_numbers record) (insert_contact_info person_id ''mobile'')) (\<lambda>_.
         andthen (for_in (whatsapp_numbers record) (insert_contact_info person_id ''whatsapp'')) (\<lambda>_.
         andthen (for_in (facebook_links record) (insert_contact_info person_id ''facebook'')) (\<lambda>_.
         andthen (for_in (website_links record) (insert_contact_info person_id ''website'')) (\<lambda>_.
         rest)))) d
       = rest (d\<lparr>contact_info := Some (cis @ payload_contacts (contact_info_id_seq d) person_id record),
                 contact_info_id_seq := contact_info_id_seq d + contact_count record\<rparr>)"
proof -
  let ?s = "contact_info_id_seq d"
  let ?ms = "items (mobile_numbers record)" and ?ws = "items (whatsapp_numbers record)"
  let ?fs = "items (facebook_links record)" and ?ss = "items (website_links record)"
  have ok: "\<forall>x \<in> set ?ms. nul_free x \<and> length x \<le> 255" "\<forall>x \<in> set ?ws. nul_free x \<and> length x \<le> 255"
    "\<forall>x \<in> set ?fs. nul_free x \<and> length x \<le> 255" "\<forall>x \<in> set ?ss. nul_free x \<and> length x \<le> 255"
    and nn: "mobile_numbers record \<noteq> PyNone" "whatsapp_numbers record \<noteq> PyNone"
      "facebook_links record \<noteq> PyNone" "website_links record \<noteq> PyNone"
    using v each_of_items[of "text_within 255"] by (auto simp: text_within_def)
  let ?c1 = "cis @ new_contacts ?s person_id ''mobile'' ?ms"
  let ?s1 = "?s + int (length ?ms)"
  let ?d1 = "d\<lparr>contact_info := Some ?c1, contact_info_id_seq := ?s1\<rparr>"
  have 1: "for_in (mobile_numbers record) (insert_contact_info person_id ''mobile'') d = (Inr (), ?d1)"
    using ci ref le ok nn kinds_ok
    by (simp add: for_in_items for_each_insert_contact_info)
  have le1: "\<forall>c \<in> set ?c1. ci_id c \<le> ?s1"
    by (rule bounded_append[OF le new_contacts_bounded])
  let ?c2 = "?c1 @ new_contacts ?s1 person_id ''whatsapp'' ?ws"
  let ?s2 = "?s1 + int (length ?ws)"
  let ?d2 = "d\<lparr>contact_info := Some ?c2, contact_info_id_seq := ?s2\<rparr>"
  have 2: "for_in (whatsapp_numbers record) (insert_contact_info person_id ''whatsapp'') ?d1 = (Inr (), ?d2)"
    using ref le1 ok nn kinds_ok
    by (simp add: for_in_items for_each_insert_contact_info[where rows = ?c1] references_person_def)
  have le2: "\<forall>c \<in> set ?c2. ci_id c \<le> ?s2"
    by (rule bounded_append[OF le1 new_contacts_bounded])
  let ?c3 = "?c2 @ new_contacts ?s2 person_id ''facebook'' ?fs"
  let ?s3 = "?s2 + int (length ?fs)"
  let ?d3 = "d\<lparr>contact_info := Some ?c3, contact_info_id_seq := ?s3\<rparr>"
  have 3: "for_in (facebook_links record) (insert_contact_info person_id ''facebook'') ?d2 = (Inr (), ?d3)"
    using ref le2 ok nn kinds_ok
    by (simp add: for_in_items for_each_insert_contact_info[where rows = ?c2] references_person_def)
  have le3: "\<forall>c \<in> set ?c3. ci_id c \<le> ?s3"
    by (rule bounded_append[OF le2 new_contacts_bounded])
  let ?c4 = "?c3 @ new_contacts ?s3 person_id ''website'' ?ss"
  let ?s4 = "?s3 + int (length ?ss)"
  let ?d4 = "d\<lparr>contact_info := Some ?c4, contact_info_id_seq := ?s4\<rparr>"
  have 4: "for_in (website_links record) (insert_contact_info person_id ''website'') ?d3 = (Inr (), ?d4)"
    using ref le3 ok nn kinds_ok
    by (simp add: for_in_items for_each_insert_contact_info[where rows = ?c3] references_person_def)
  have eq: "?d4 = d\<lparr>contact_info := Some (cis @ payload_contacts ?s person_id record),
                 contact_info_id_seq := ?s + contact_count record\<rparr>"
    by (simp add: payload_contacts_def contact_count_def Let_def)
  show ?thesis
    by (simp only: andthen_def 1 2 3 4 prod.case sum.case eq)
qed

lemma document_loop:
  assumes "documents d = Some ds"
    and "references_person d person_id"
    and "\<forall>x \<in> set ds. d_id x \<le> documents_id_seq d"
    and "each_of nul_free (pdf_urls record)"
  shows "for_in (pdf_urls record) (\<lambda>u. insert_documents person_id u ''pdf'') d =
     (Inr (), d\<lparr>documents := Some (ds @ new_documents (documents_id_seq d) person_id ''pdf''
                                        (items (pdf_urls record))),
               documents_id_seq := documents_id_seq d + int (length (items (pdf_urls record)))\<rparr>)"
  using assms each_of_items[of nul_free "pdf_urls record"] kinds_ok
  by (simp add: for_in_items for_each_insert_documents)

lemma inner_add_record_ok:
  assumes "wf d" and "valid_payload record"
  shows "inner_add_record now record d = (Inr (persons_id_seq d + 1), after_add now record d)"
proof -
  from assms(1) obtain ps cis ds where t: "persons d = Some ps" "contact_info d = Some cis"
      "documents d = Some ds"
    and inv: "\<forall>p \<in> set ps. p_id p \<le> persons_id_seq d"
      "\<forall>c \<in> set cis. ci_id c \<le> contact_info_id_seq d \<and> ci_person_id c \<in> p_id ` set ps"
      "\<forall>x \<in> set ds. d_id x \<le> documents_id_seq d \<and> d_person_id x \<in> p_id ` set ps"
    by (rule wfE)
  from assms(2) obtain v where v: "values_of record = Inr v" "adaptable v" "coercible v"
      "not_null v" "\<And>r. set_columns v r = stored_row record (p_id r) (p_created_at r)"
    by (rule values_of_valid) blast
  note V = assms(2)[unfolded valid_payload_def]
  let ?pid = "persons_id_seq d + 1"
  let ?d1 = "d\<lparr>persons_id_seq := ?pid, persons := Some (ps @ [stored_row record ?pid now])\<rparr>"
  have fresh: "?pid \<notin> p_id ` set ps"
    using inv(1) by force
  have 1: "lift (values_of record) d = (Inr v, d)"
    by (simp add: lift_def v(1))
  have 2: "insert_persons v now d = (Inr ?pid, ?d1)"
    using t v fresh by (simp add: insert_persons_def Let_def)
  let ?d2 = "?d1\<lparr>contact_info := Some (cis @ payload_contacts (contact_info_id_seq ?d1) ?pid record),
                 contact_info_id_seq := contact_info_id_seq ?d1 + contact_count record\<rparr>"
  have ref: "references_person ?d1 ?pid" "references_person ?d2 ?pid"
    by (simp_all add: references_person_def stored_row_def)
  have 3: "andthen (for_in (mobile_numbers record) (insert_contact_info ?pid ''mobile'')) (\<lambda>_.
         andthen (for_in (whatsapp_numbers record) (insert_contact_info ?pid ''whatsapp'')) (\<lambda>_.
         andthen (for_in (facebook_links record) (insert_contact_info ?pid ''facebook'')) (\<lambda>_.
         andthen (for_in (website_links record) (insert_contact_info ?pid ''website'')) (\<lambda>_.
         rest)))) ?d1 = rest ?d2" for rest :: "int stmt"
    using t inv V by (intro contact_loops ref) simp_all
  let ?d3 = "?d2\<lparr>documents := Some (ds @ new_documents (documents_id_seq ?d2) ?pid ''pdf''
                                        (items (pdf_urls record))),
               documents_id_seq := documents_id_seq ?d2 + int (length (items (pdf_urls record)))\<rparr>"
  have 4: "for_in (pdf_urls record) (\<lambda>u. insert_documents ?pid u ''pdf'') ?d2 = (Inr (), ?d3)"
    using t inv V by (intro document_loop ref) simp_all
  have eq: "?d3 = after_add now record d"
    using t by (simp add: after_add_def Let_def)
  have "inner_add_record now record d
      = andthen (for_in (pdf_urls record) (\<lambda>u. insert_documents ?pid u ''pdf''))
          (\<lambda>_. returns ?pid) ?d2"
    unfolding inner_add_record_def
    by (subst andthen_def, simp only: 1 prod.case sum.case,
        subst andthen_def, simp only: 2 prod.case sum.case, rule 3)
  also have "\<dots> = (Inr ?pid, ?d3)"
    by (simp only: andthen_def 4 prod.case sum.case returns_def)
  finally show ?thesis
    by (simp only: eq)
qed

lemma add_record_calm:
  assumes "calm w" and "wf (db w)" and "valid_payload record"
  shows "add_record record w =
    (Some (persons_id_seq (db w) + 1),
     w\<lparr>db := after_add (clock w) record (db w),
       trace := trace w @ [GetConn, Commit, PutConn]\<rparr>)"
  using assms
  by (simp add: add_record_def calm_def execute_ok[OF _ inner_add_record_ok])

subsection \<open>Reading a person back\<close>

lemma filter_unique_id:
  assumes "distinct (map p_id ps)" and "p \<in> set ps"
  shows "filter (\<lambda>q. p_id q = p_id p) ps = [p]"
  using assms
proof (induction ps)
  case Nil
  then show ?case by simp
next
  case (Cons q ps)
  show ?case
  proof (cases "q = p")
    case True
    then have "filter (\<lambda>q. p_id q = p_id p) ps = []"
      using Cons.prems(1) by (auto simp: filter_empty_conv image_iff)
    then show ?thesis using True by simp
  next
    case False
    then have "p \<in> set ps" using Cons.prems(2) by simp
    moreover from this have "p_id q \<noteq> p_id p"
      using Cons.prems(1) by force
    ultimately show ?thesis using Cons by simp
  qed
qed

lemma materialize_strict_ok:
  assumes "values_for cis (p_id p) ''mobile'' \<noteq> []"
    and "values_for cis (p_id p) ''whatsapp'' \<noteq> []"
    and "values_for cis (p_id p) ''facebook'' \<noteq> []"
    and "values_for cis (p_id p) ''website'' \<noteq> []"
  shows "materialize_strict (aggregate cis ds p) = Inr (materialize (aggregate cis ds p))"
proof -
  have "agg_contact ''mobile'' (joined cis ds p) \<noteq> None"
    "agg_contact ''whatsapp'' (joined cis ds p) \<noteq> None"
    "agg_contact ''facebook'' (joined cis ds p) \<noteq> None"
    "agg_contact ''website'' (joined cis ds p) \<noteq> None"
    using assms by (simp_all only: agg_contact_None not_False_eq_True)
  then obtain ms ws fs ss where
    "agg_contact ''mobile'' (joined cis ds p) = Some ms"
    "agg_contact ''whatsapp'' (joined cis ds p) = Some ws"
    "agg_contact ''facebook'' (joined cis ds p) = Some fs"
    "agg_contact ''website'' (joined cis ds p) = Some ss"
    by blast
  then show ?thesis
    by (simp add: materialize_strict_def materialize_def aggregate_def Let_def)
qed

lemma materialize_strict_raises:
  assumes "values_for cis (p_id p) ''mobile'' = [] \<or> values_for cis (p_id p) ''whatsapp'' = []
    \<or> values_for cis (p_id p) ''facebook'' = [] \<or> values_for cis (p_id p) ''website'' = []"
  shows "materialize_strict (aggregate cis ds p) = Inl TypeError"
proof -
  have "agg_contact ''mobile'' (joined cis ds p) = None
      \<or> agg_contact ''whatsapp'' (joined cis ds p) = None
      \<or> agg_contact ''facebook'' (joined cis ds p) = None
      \<or> agg_contact ''website'' (joined cis ds p) = None"
    using assms by (simp only: agg_contact_None)
  then show ?thesis
    by (auto simp: materialize_strict_def aggregate_def Let_def split: option.splits)
qed

lemma get_record_found:
  assumes "calm w" and "persons (db w) = Some ps" and "contact_info (db w) = Some cis"
    and "documents (db w) = Some ds" and "distinct (map p_id ps)" and "p \<in> set ps"
    and "values_for cis (p_id p) ''mobile'' \<noteq> []"
    and "values_for cis (p_id p) ''whatsapp'' \<noteq> []"
    and "values_for cis (p_id p) ''facebook'' \<noteq> []"
    and "values_for cis (p_id p) ''website'' \<noteq> []"
  shows "get_record (p_id p) w =
    (Inr (Some (materialize (aggregate cis ds p))),
     w\<lparr>trace := trace w @ [GetConn, Commit, PutConn]\<rparr>)"
proof -
  have "inner_get_record now (p_id p) (db w) = (Inr (Some (materialize (aggregate cis ds p))), db w)"
    for now
    using assms(2-4) filter_unique_id[OF assms(5,6)] materialize_strict_ok[OF assms(7-10)]
    by (simp add: inner_get_record_def andthen_def select_persons_def lift_def returns_def)
  then show ?thesis
    using assms(1) by (simp add: get_record_def calm_def execute_ok)
qed

lemma get_record_type_error:
  assumes "calm w" and "persons (db w) = Some ps" and "contact_info (db w) = Some cis"
    and "documents (db w) = Some ds" and "distinct (map p_id ps)" and "p \<in> set ps"
    and "values_for cis (p_id p) ''mobile'' = [] \<or> values_for cis (p_id p) ''whatsapp'' = []
      \<or> values_for cis (p_id p) ''facebook'' = [] \<or> values_for cis (p_id p) ''website'' = []"
  shows "fst (get_record (p_id p) w) = Inl TypeError"
proof -
  have "inner_get_record now (p_id p) (db w) = (Inl TypeError, db w)" for now
    using assms(2-4) filter_unique_id[OF assms(5,6)] materialize_strict_raises[OF assms(7)]
    by (simp add: inner_get_record_def andthen_def select_persons_def lift_def returns_def)
  then show ?thesis
    using assms(1) by (simp add: get_record_def calm_def execute_raise transient_def)
qed

lemma materialize_aggregate:
  "r_person (materialize (aggregate cis ds p)) = p"
  "mset (r_mobile_numbers (materialize (aggregate cis ds p)))
     = mset (remdups (filter (\<lambda>s. s \<noteq> []) (values_for cis (p_id p) ''mobile'')))"
  "mset (r_whatsapp_numbers (materialize (aggregate cis ds p)))
     = mset (remdups (filter (\<lambda>s. s \<noteq> []) (values_for cis (p_id p) ''whatsapp'')))"
  "mset (r_facebook_links (materialize (aggregate cis ds p)))
     = mset (remdups (filter (\<lambda>s. s \<noteq> []) (values_for cis (p_id p) ''facebook'')))"
  "mset (r_website_links (materialize (aggregate cis ds p)))
     = mset (remdups (filter (\<lambda>s. s \<noteq> []) (values_for cis (p_id p) ''website'')))"
  "mset (r_pdf_urls (materialize (aggregate cis ds p)))
     = mset (remdups (filter (\<lambda>s. s \<noteq> []) (urls_for ds (p_id p) ''pdf'')))"
  by (simp_all add: materialize_def aggregate_def Let_def materialized_contacts materialized_urls)

subsection \<open>The children a write leaves behind\<close>

lemma values_for_append:
  "values_for (xs @ ys) i k = values_for xs i k @ values_for ys i k"
  by (simp add: values_for_def)

lemma urls_for_append:
  "urls_for (xs @ ys) i k = urls_for xs i k @ urls_for ys i k"
  by (simp add: urls_for_def)

lemma values_for_new_contacts:
  "values_for (new_contacts s i k vs) j k' = (if i = j \<and> k = k' then vs else [])"
  by (induction vs arbitrary: s) (auto simp: values_for_def)

lemma urls_for_new_documents:
  "urls_for (new_documents s i k us) j k' = (if i = j \<and> k = k' then us else [])"
  by (induction us arbitrary: s) (auto simp: urls_for_def)

lemma values_for_payload_contacts:
  "values_for (payload_contacts s i record) i ''mobile'' = items (mobile_numbers record)"
  "values_for (payload_contacts s i record) i ''whatsapp'' = items (whatsapp_numbers record)"
  "values_for (payload_contacts s i record) i ''facebook'' = items (facebook_links record)"
  "values_for (payload_contacts s i record) i ''website'' = items (website_links record)"
  by (simp_all add: payload_contacts_def Let_def values_for_append values_for_new_contacts)

lemma values_for_payload_contacts_other:
  "i \<noteq> j \<Longrightarrow> values_for (payload_contacts s i record) j k = []"
  by (simp add: payload_contacts_def Let_def values_for_append values_for_new_contacts)

lemma values_for_unreferenced:
  "\<forall>c \<in> set cis. ci_person_id c \<noteq> i \<Longrightarrow> values_for cis i k = []"
  by (simp add: values_for_def filter_empty_conv)

lemma urls_for_unreferenced:
  "\<forall>x \<in> set ds. d_person_id x \<noteq> i \<Longrightarrow> urls_for ds i k = []"
  by (simp add: urls_for_def filter_empty_conv)

lemma values_for_filter_other:
  "values_for (filter (\<lambda>c. ci_person_id c \<noteq> i) cis) j k = (if i = j then [] else values_for cis j k)"
  by (auto simp: values_for_def filter_empty_conv intro!: arg_cong[where f = "map ci_value"] filter_cong)

lemma urls_for_filter_other:
  "urls_for (filter (\<lambda>x. d_person_id x \<noteq> i) ds) j k = (if i = j then [] else urls_for ds j k)"
  by (auto simp: urls_for_def filter_empty_conv intro!: arg_cong[where f = "map d_url"] filter_cong)

lemma new_contacts_person:
  "\<forall>c \<in> set (new_contacts s i k vs). ci_person_id c = i"
  by (induction vs arbitrary: s) auto

lemma new_documents_person:
  "\<forall>x \<in> set (new_documents s i k us). d_person_id x = i"
  by (induction us arbitrary: s) auto

lemma payload_contacts_person:
  "\<forall>c \<in> set (payload_contacts s i record). ci_person_id c = i"
  using new_contacts_person by (auto simp: payload_contacts_def Let_def)

lemma payload_contacts_bounded:
  "\<forall>c \<in> set (payload_contacts s i record). ci_id c \<le> s + contact_count record"
  unfolding payload_contacts_def Let_def set_append
  by (auto simp: contact_count_def dest!: new_contacts_bounded[rule_format])

lemma wf_after_add:
  assumes "wf d"
  shows "wf (after_add now record d)"
proof -
  from assms obtain ps cis ds where t: "persons d = Some ps" "contact_info d = Some cis"
      "documents d = Some ds"
    and inv: "distinct (map p_id ps)" "\<forall>p \<in> set ps. p_id p \<le> persons_id_seq d"
      "\<forall>c \<in> set cis. ci_id c \<le> contact_info_id_seq d \<and> ci_person_id c \<in> p_id ` set ps"
      "\<forall>x \<in> set ds. d_id x \<le> documents_id_seq d \<and> d_person_id x \<in> p_id ` set ps"
    by (rule wfE)
  let ?pid = "persons_id_seq d + 1"
  have fresh: "?pid \<notin> p_id ` set ps"
    using inv(2) by force
  have cc: "0 \<le> contact_count record"
    by (simp add: contact_count_def)
  have 1: "distinct (map p_id (ps @ [stored_row record ?pid now]))"
    using inv(1) fresh by (simp add: stored_row_def)
  have 2: "\<forall>p \<in> set (ps @ [stored_row record ?pid now]). p_id p \<le> ?pid"
    using inv(2) by (auto simp: stored_row_def)
  have 3: "\<forall>c \<in> set (cis @ payload_contacts (contact_info_id_seq d) ?pid record).
      ci_id c \<le> contact_info_id_seq d + contact_count record
      \<and> ci_person_id c \<in> p_id ` set (ps @ [stored_row record ?pid now])"
    using inv(3) cc payload_contacts_bounded[of "contact_info_id_seq d" "?pid" "record"]
      payload_contacts_person[of "contact_info_id_seq d" "?pid" "record"]
    by (auto simp: stored_row_def)
  have 4: "\<forall>x \<in> set (ds @ new_documents (documents_id_seq d) ?pid ''pdf'' (items (pdf_urls record))).
      d_id x \<le> documents_id_seq d + int (length (items (pdf_urls record)))
      \<and> d_person_id x \<in> p_id ` set (ps @ [stored_row record ?pid now])"
    using inv(4)
      new_documents_bounded[of "documents_id_seq d" "?pid" "''pdf''" "items (pdf_urls record)"]
      new_documents_person[of "documents_id_seq d" "?pid" "''pdf''" "items (pdf_urls record)"]
    by (auto simp: stored_row_def)
  show ?thesis
    using t 1 2 3 4 by (simp add: wf_def after_add_def Let_def)
qed

text \<open>Reading back the person \<open>_add_record\<close> has stored.\<close>

lemma get_record_after_add:
  assumes "calm w" and "wf (db w)"
    and "items (mobile_numbers record) \<noteq> []" and "items (whatsapp_numbers record) \<noteq> []"
    and "items (facebook_links record) \<noteq> []" and "items (website_links record) \<noteq> []"
  shows "\<exists>r w2.
     get_record (persons_id_seq (db w) + 1) (w\<lparr>db := after_add now record (db w), trace := tr\<rparr>)
       = (Inr (Some r), w2) \<and>
     r_person r = stored_row record (persons_id_seq (db w) + 1) now \<and>
     mset (r_mobile_numbers r)
       = mset (remdups (filter (\<lambda>s. s \<noteq> []) (items (mobile_numbers record)))) \<and>
     mset (r_whatsapp_numbers r)
       = mset (remdups (filter (\<lambda>s. s \<noteq> []) (items (whatsapp_numbers record)))) \<and>
     mset (r_facebook_links r)
       = mset (remdups (filter (\<lambda>s. s \<noteq> []) (items (facebook_links record)))) \<and>
     mset (r_website_links r)
       = mset (remdups (filter (\<lambda>s. s \<noteq> []) (items (website_links record)))) \<and>
     mset (r_pdf_urls r)
       = mset (remdups (filter (\<lambda>s. s \<noteq> []) (items (pdf_urls record))))"
proof -
  let ?d = "db w"
  from assms(2) obtain ps cis ds where t: "persons ?d = Some ps" "contact_info ?d = Some cis"
      "documents ?d = Some ds"
    and inv: "distinct (map p_id ps)" "\<forall>p \<in> set ps. p_id p \<le> persons_id_seq ?d"
      "\<forall>c \<in> set cis. ci_id c \<le> contact_info_id_seq ?d \<and> ci_person_id c \<in> p_id ` set ps"
      "\<forall>x \<in> set ds. d_id x \<le> documents_id_seq ?d \<and> d_person_id x \<in> p_id ` set ps"
    by (rule wfE)
  let ?pid = "persons_id_seq ?d + 1"
  let ?p = "stored_row record ?pid now"
  let ?cis = "cis @ payload_contacts (contact_info_id_seq ?d) ?pid record"
  let ?ds = "ds @ new_documents (documents_id_seq ?d) ?pid ''pdf'' (items (pdf_urls record))"
  let ?w1 = "w\<lparr>db := after_add now record ?d, trace := tr\<rparr>"
  have pid: "p_id ?p = ?pid"
    by (simp add: stored_row_def)
  have fresh: "?pid \<notin> p_id ` set ps"
    using inv(2) by force
  have old_c: "values_for cis ?pid k = []" for k
    using inv(3) fresh by (intro values_for_unreferenced) metis
  have old_d: "urls_for ds ?pid k = []" for k
    using inv(4) fresh by (intro urls_for_unreferenced) metis
  have vals: "values_for ?cis ?pid ''mobile'' = items (mobile_numbers record)"
    "values_for ?cis ?pid ''whatsapp'' = items (whatsapp_numbers record)"
    "values_for ?cis ?pid ''facebook'' = items (facebook_links record)"
    "values_for ?cis ?pid ''website'' = items (website_links record)"
    "urls_for ?ds ?pid ''pdf'' = items (pdf_urls record)"
    by (simp_all add: values_for_append urls_for_append old_c old_d values_for_payload_contacts
        urls_for_new_documents)
  have "get_record (p_id ?p) ?w1 =
    (Inr (Some (materialize (aggregate ?cis ?ds ?p))),
     ?w1\<lparr>trace := trace ?w1 @ [GetConn, Commit, PutConn]\<rparr>)"
  proof (rule get_record_found)
    show "calm ?w1" using assms(1) by (simp add: calm_def)
    show "persons (db ?w1) = Some (ps @ [?p])" "contact_info (db ?w1) = Some ?cis"
      "documents (db ?w1) = Some ?ds"
      using t by (simp_all add: after_add_def Let_def)
    show "distinct (map p_id (ps @ [?p]))"
      using inv(1) fresh by (simp add: pid)
    show "?p \<in> set (ps @ [?p])" by simp
    show "values_for ?cis (p_id ?p) ''mobile'' \<noteq> []" "values_for ?cis (p_id ?p) ''whatsapp'' \<noteq> []"
      "values_for ?cis (p_id ?p) ''facebook'' \<noteq> []" "values_for ?cis (p_id ?p) ''website'' \<noteq> []"
      using assms(3-6) by (simp_all only: pid vals not_False_eq_True)
  qed
  then show ?thesis
    using vals by (simp only: pid) (simp add: materialize_aggregate pid)
qed

subsection \<open>The executor in general\<close>

lemma same_tables_refl: "same_tables d d"
  by (simp add: same_tables_def)

lemma same_tables_rollback: "same_tables (rollback d working) d"
  by (simp add: same_tables_def rollback_def)

lemma same_tables_trans: "same_tables a b \<Longrightarrow> same_tables b c \<Longrightarrow> same_tables a c"
  by (simp add: same_tables_def)

text \<open>The four ways a \<open>try\<close> block can end.\<close>

lemma try_block_cases:
  obtains
    (no_conn) e where "try_block operation w = (Inl e, None, w\<lparr>faults := tl (faults w)\<rparr>)"
  | (failed) e working where
      "try_block operation w =
         (Inl e, Some working, w\<lparr>faults := tl (faults w), trace := trace w @ [GetConn]\<rparr>)"
  | (committed) r working where
      "try_block operation w =
         (Inr r, Some working,
          w\<lparr>faults := tl (faults w), db := working, trace := trace w @ [GetConn, Commit]\<rparr>)"
      "operation (clock w) (db w) = (Inr r, working)"
proof (cases "next_fault w")
  case NoFault
  obtain x working where op: "operation (clock w) (db w) = (x, working)"
    by (cases "operation (clock w) (db w)")
  show ?thesis
  proof (cases x)
    case (Inl e)
    then show ?thesis
      using NoFault op by (intro failed[of e working]) (simp add: try_block_def log_def)
  next
    case (Inr r)
    then show ?thesis
      using NoFault op by (intro committed[of r working]) (simp_all add: try_block_def log_def)
  qed
next
  case (AtAcquire e)
  then show ?thesis by (intro no_conn[of e]) (simp add: try_block_def)
next
  case (AtExecute e a b c)
  then show ?thesis
    by (intro failed[of e "taken a b c (db w)"]) (simp add: try_block_def log_def)
next
  case (AtCommit e)
  obtain x working where op: "operation (clock w) (db w) = (x, working)"
    by (cases "operation (clock w) (db w)")
  show ?thesis
  proof (cases x)
    case (Inl e')
    then show ?thesis
      using AtCommit op by (intro failed[of e' working]) (simp add: try_block_def log_def)
  next
    case (Inr r)
    then show ?thesis
      using AtCommit op by (intro failed[of e working]) (simp add: try_block_def log_def)
  qed
qed

text \<open>One turn of the loop, by the way its \<open>try\<close> block ends.\<close>

lemma attempts_committed:
  assumes "try_block operation w = (Inr r, conn, w1)"
  shows "attempts (a # as) m operation w = (Inr (Some r), return_connection conn w1)"
  using assms by simp

lemma attempts_fatal:
  assumes "try_block operation w = (Inl e, conn, w1)" and "\<not> transient e"
  shows "attempts (a # as) m operation w =
           (Inl e, return_connection conn (rollback_if_conn conn (log (Except e) w1)))"
  using assms by (simp add: Let_def)

lemma attempts_exhausted:
  assumes "try_block operation w = (Inl e, conn, w1)" and "transient e" and "a = m - 1"
  shows "attempts (a # as) m operation w =
           (Inl e, return_connection conn (rollback_if_conn conn (log (Except e) w1)))"
  using assms by (simp add: Let_def)

lemma attempts_retry:
  assumes "try_block operation w = (Inl e, conn, w1)" and "transient e" and "a \<noteq> m - 1"
  shows "attempts (a # as) m operation w =
           attempts as m operation
             (return_connection conn (sleep 1 (rollback_if_conn conn (log (Except e) w1))))"
  using assms by (simp add: Let_def)

lemma attempts_db_transfer:
  assumes "(\<forall>e. res = Inl e \<longrightarrow> same_tables d' d1) \<and>
         (res = Inr None \<longrightarrow> same_tables d' d1) \<and>
         (\<forall>r. res = Inr (Some r) \<longrightarrow>
            (\<exists>now d0. operation now d0 = (Inr r, d') \<and> same_tables d0 d1))"
    and "same_tables d1 d"
  shows "(\<forall>e. res = Inl e \<longrightarrow> same_tables d' d) \<and>
         (res = Inr None \<longrightarrow> same_tables d' d) \<and>
         (\<forall>r. res = Inr (Some r) \<longrightarrow>
            (\<exists>now d0. operation now d0 = (Inr r, d') \<and> same_tables d0 d))"
  using assms by (simp add: same_tables_def)

lemma attempts_db:
  assumes "attempts as m operation w = (res, w')"
  shows "(\<forall>e. res = Inl e \<longrightarrow> same_tables (db w') (db w)) \<and>
         (res = Inr None \<longrightarrow> same_tables (db w') (db w)) \<and>
         (\<forall>r. res = Inr (Some r) \<longrightarrow>
            (\<exists>now d0. operation now d0 = (Inr r, db w') \<and> same_tables d0 (db w)))"
  using assms
proof (induction as arbitrary: w)
  case Nil
  then show ?case by (auto simp: same_tables_refl)
next
  case (Cons a as)
  show ?case
  proof (cases rule: try_block_cases[of operation w])
    case (no_conn e)
    consider (stop) "\<not> transient e \<or> a = m - 1" | (retry) "transient e" "a \<noteq> m - 1"
      by blast
    then show ?thesis
    proof cases
      case stop
      then have "attempts (a # as) m operation w =
          (Inl e, return_connection None (rollback_if_conn None
             (log (Except e) (w\<lparr>faults := tl (faults w)\<rparr>))))"
        using attempts_fatal[OF no_conn] attempts_exhausted[OF no_conn] by blast
      then show ?thesis
        using Cons.prems by (auto simp: log_def same_tables_refl)
    next
      case retry
      let ?w1 = "return_connection None (sleep 1 (rollback_if_conn None
        (log (Except e) (w\<lparr>faults := tl (faults w)\<rparr>))))"
      have db1: "same_tables (db ?w1) (db w)"
        by (simp add: sleep_def log_def same_tables_refl)
      from Cons.IH[OF Cons.prems[unfolded attempts_retry[OF no_conn retry]]] db1
      show ?thesis
        by (rule attempts_db_transfer)
    qed
  next
    case (failed e working)
    consider (stop) "\<not> transient e \<or> a = m - 1" | (retry) "transient e" "a \<noteq> m - 1"
      by blast
    then show ?thesis
    proof cases
      case stop
      then have "attempts (a # as) m operation w =
          (Inl e, return_connection (Some working) (rollback_if_conn (Some working)
             (log (Except e) (w\<lparr>faults := tl (faults w), trace := trace w @ [GetConn]\<rparr>))))"
        using attempts_fatal[OF failed] attempts_exhausted[OF failed] by blast
      then show ?thesis
        using Cons.prems by (auto simp: log_def same_tables_rollback)
    next
      case retry
      let ?w1 = "return_connection (Some working) (sleep 1 (rollback_if_conn (Some working)
        (log (Except e) (w\<lparr>faults := tl (faults w), trace := trace w @ [GetConn]\<rparr>))))"
      have db1: "same_tables (db ?w1) (db w)"
        by (simp add: sleep_def log_def same_tables_rollback)
      from Cons.IH[OF Cons.prems[unfolded attempts_retry[OF failed retry]]] db1
      show ?thesis
        by (rule attempts_db_transfer)
    qed
  next
    case (committed r working)
    have eq: "res = Inr (Some r)" "db w' = working"
      using Cons.prems[unfolded attempts_committed[OF committed(1)]]
      by (auto simp: log_def)
    have "\<exists>now d0. operation now d0 = (Inr r, db w') \<and> same_tables d0 (db w)"
      using committed(2) same_tables_refl[of "db w"] unfolding eq by blast
    then show ?thesis
      by (simp add: eq(1))
  qed
qed

lemma execute_db:
  assumes "execute_with_retry operation n w = (res, w')"
  shows "(\<forall>e. res = Inl e \<longrightarrow> same_tables (db w') (db w)) \<and>
         (res = Inr None \<longrightarrow> same_tables (db w') (db w)) \<and>
         (\<forall>r. res = Inr (Some r) \<longrightarrow>
            (\<exists>now d0. operation now d0 = (Inr r, db w') \<and> same_tables d0 (db w)))"
  using assms unfolding execute_with_retry_def by (rule attempts_db)

lemma failures_append: "failures (xs @ ys) = failures xs @ failures ys"
  by (induction xs rule: failures.induct) simp_all

lemma sleeps_append: "sleeps (xs @ ys) = sleeps xs @ sleeps ys"
  by (induction xs rule: sleeps.induct) simp_all

lemma attempts_made_append: "attempts_made (xs @ ys) = attempts_made xs + attempts_made ys"
  by (simp add: attempts_made_def failures_append)

lemma report_empty: "report 0 [] (Inr None)"
  by (simp add: report_def attempts_made_def)

lemma report_commit: "report (Suc n) [GetConn, Commit, PutConn] (Inr (Some r))"
  by (simp add: report_def attempts_made_def shape.committed)

lemma report_stop:
  assumes "transient e \<longrightarrow> n = 0"
  shows "report (Suc n) [Except e] (Inl e)"
    and "report (Suc n) [GetConn, Except e, Rollback, PutConn] (Inl e)"
  using assms
  by (simp_all add: report_def attempts_made_def shape.no_connection shape.failed)

lemma report_retry:
  assumes "report n es res" and "0 < n" and "transient e"
  shows "report (Suc n) ([Except e, Sleep 1] @ es) res"
    and "report (Suc n) ([GetConn, Except e, Rollback, Sleep 1, PutConn] @ es) res"
proof -
  note R = assms(1)[unfolded report_def]
  from R assms(2) have am: "1 \<le> attempts_made es" by simp
  then have rep: "1 # replicate (attempts_made es - 1) 1 = replicate (attempts_made es) (1::nat)"
    by (cases "attempts_made es") simp_all
  have bl: "list_all transient (butlast (e # failures es))"
    using R assms(3) by simp
  have se: "shape es"
    using R assms(2) by simp
  have sh: "shape (Except e # Sleep 1 # es)"
      "shape (GetConn # Except e # Rollback # Sleep 1 # PutConn # es)"
    using se by (rule shape.retry_no_connection, rule shape.retry_failed)
  have dr: "drop (length es - 2) es = [Commit, PutConn] \<Longrightarrow>
      drop (length (xs @ es) - 2) (xs @ es) = [Commit, PutConn]" for xs
  proof -
    assume a: "drop (length es - 2) es = [Commit, PutConn]"
    then have "2 \<le> length es"
      by (metis One_nat_def Suc_1 diff_diff_cancel diff_is_0_eq drop_all length_Cons length_drop
          list.size(3) nat_le_linear not_less_eq_eq numeral_2_eq_2 list.distinct(1))
    then show ?thesis using a by simp
  qed
  show "report (Suc n) ([Except e, Sleep 1] @ es) res"
    using R am rep bl sh(1) dr[of "[Except e, Sleep 1]"] assms(2,3)
    by (cases res) (auto simp: report_def attempts_made_def)
  show "report (Suc n) ([GetConn, Except e, Rollback, Sleep 1, PutConn] @ es) res"
    using R am rep bl sh(2) dr[of "[GetConn, Except e, Rollback, Sleep 1, PutConn]"] assms(2,3)
    by (cases res) (auto simp: report_def attempts_made_def)
qed

lemma attempts_report:
  assumes "attempts as m operation w = (res, w')" and "as = [k..<m]"
  shows "\<exists>es. trace w' = trace w @ es \<and> report (length as) es res"
  using assms
proof (induction as arbitrary: k w)
  case Nil
  then show ?case by (auto intro: report_empty)
next
  case (Cons a as)
  from Cons.prems(2) have "[k..<m] = a # as"
    by simp
  then have ak: "a = k" "k < m" "as = [Suc k..<m]"
    by (auto simp: upt_eq_Cons_conv)
  have last_iff: "a = m - 1 \<longleftrightarrow> as = []"
    using ak by auto
  show ?case
  proof (cases rule: try_block_cases[of operation w])
    case (no_conn e)
    let ?w0 = "w\<lparr>faults := tl (faults w)\<rparr>"
    consider (stop) "\<not> transient e \<or> a = m - 1" | (retry) "transient e" "a \<noteq> m - 1"
      by blast
    then show ?thesis
    proof cases
      case stop
      then have "attempts (a # as) m operation w =
          (Inl e, return_connection None (rollback_if_conn None (log (Except e) ?w0)))"
        using attempts_fatal[OF no_conn] attempts_exhausted[OF no_conn] by blast
      then have r: "res = Inl e" "trace w' = trace w @ [Except e]"
        using Cons.prems(1) by (auto simp: log_def)
      have "report (Suc (length as)) [Except e] (Inl e)"
        by (rule report_stop) (use stop last_iff in auto)
      then show ?thesis
        by (intro exI[of _ "[Except e]"]) (simp add: r)
    next
      case retry
      let ?w1 = "return_connection None (sleep 1 (rollback_if_conn None (log (Except e) ?w0)))"
      have tr: "trace ?w1 = trace w @ [Except e, Sleep 1]"
        by (simp add: sleep_def log_def)
      from Cons.IH[OF Cons.prems(1)[unfolded attempts_retry[OF no_conn retry]] ak(3)]
      obtain es where es: "trace w' = trace ?w1 @ es" "report (length as) es res"
        by (elim exE conjE)
      have "report (Suc (length as)) ([Except e, Sleep 1] @ es) res"
        by (rule report_retry) (use es(2) retry last_iff in auto)
      then show ?thesis
        using es(1) tr by (intro exI[of _ "[Except e, Sleep 1] @ es"]) simp
    qed
  next
    case (failed e working)
    let ?w0 = "w\<lparr>faults := tl (faults w), trace := trace w @ [GetConn]\<rparr>"
    consider (stop) "\<not> transient e \<or> a = m - 1" | (retry) "transient e" "a \<noteq> m - 1"
      by blast
    then show ?thesis
    proof cases
      case stop
      then have "attempts (a # as) m operation w =
          (Inl e, return_connection (Some working)
                    (rollback_if_conn (Some working) (log (Except e) ?w0)))"
        using attempts_fatal[OF failed] attempts_exhausted[OF failed] by blast
      then have r: "res = Inl e" "trace w' = trace w @ [GetConn, Except e, Rollback, PutConn]"
        using Cons.prems(1) by (auto simp: log_def)
      have "report (Suc (length as)) [GetConn, Except e, Rollback, PutConn] (Inl e)"
        by (rule report_stop) (use stop last_iff in auto)
      then show ?thesis
        by (intro exI[of _ "[GetConn, Except e, Rollback, PutConn]"]) (simp add: r)
    next
      case retry
      let ?w1 = "return_connection (Some working)
                   (sleep 1 (rollback_if_conn (Some working) (log (Except e) ?w0)))"
      have tr: "trace ?w1 = trace w @ [GetConn, Except e, Rollback, Sleep 1, PutConn]"
        by (simp add: sleep_def log_def)
      from Cons.IH[OF Cons.prems(1)[unfolded attempts_retry[OF failed retry]] ak(3)]
      obtain es where es: "trace w' = trace ?w1 @ es" "report (length as) es res"
        by (elim exE conjE)
      have "report (Suc (length as)) ([GetConn, Except e, Rollback, Sleep 1, PutConn] @ es) res"
        by (rule report_retry) (use es(2) retry last_iff in auto)
      then show ?thesis
        using es(1) tr
        by (intro exI[of _ "[GetConn, Except e, Rollback, Sleep 1, PutConn] @ es"]) simp
    qed
  next
    case (committed r working)
    have r: "res = Inr (Some r)" "trace w' = trace w @ [GetConn, Commit, PutConn]"
      using Cons.prems(1)[unfolded attempts_committed[OF committed(1)]]
      by (auto simp: log_def)
    show ?thesis
      by (intro exI[of _ "[GetConn, Commit, PutConn]"]) (simp add: r report_commit)
  qed
qed

lemma execute_report:
  assumes "execute_with_retry operation n w = (res, w')"
  shows "\<exists>es. trace w' = trace w @ es \<and> report n es res"
  using attempts_report[OF assms[unfolded execute_with_retry_def] refl] by simp

lemma execute_returns_value:
  assumes "execute_with_retry operation 3 w = (Inr r, w')"
  shows "r \<noteq> None"
proof -
  from execute_report[OF assms] obtain es where "report 3 es (Inr r :: error + 'a option)"
    by blast
  then show ?thesis
    by (simp add: report_def)
qed

lemma inner_create_tables_result:
  "inner_create_tables now d =
     (Inr (), \<lparr> persons = Some [], contact_info = Some [], documents = Some [],
               persons_id_seq = 0, contact_info_id_seq = 0, documents_id_seq = 0 \<rparr>)"
  by (cases d)
     (simp add: inner_create_tables_def andthen_def drop_persons_def drop_contact_info_def
        drop_documents_def create_persons_def create_contact_info_if_not_exists_def
        create_documents_if_not_exists_def)

text \<open>A run of \<open>create_tables\<close> that returns leaves three empty tables and fresh sequences.\<close>

lemma create_tables_result:
  "(calm w \<longrightarrow> fst (create_tables w) = Inr ()) \<and>
   (fst (create_tables w) = Inr () \<longrightarrow>
      db (snd (create_tables w)) =
        \<lparr> persons = Some [], contact_info = Some [], documents = Some [],
          persons_id_seq = 0, contact_info_id_seq = 0, documents_id_seq = 0 \<rparr>)"
proof (intro conjI impI)
  assume "calm w"
  then show "fst (create_tables w) = Inr ()"
    by (simp add: create_tables_def calm_def execute_ok[OF _ inner_create_tables_result])
next
  assume ok: "fst (create_tables w) = Inr ()"
  obtain res w' where ex: "execute_with_retry inner_create_tables 3 w = (res, w')"
    by (cases "execute_with_retry inner_create_tables 3 w")
  from ok ex obtain r where r: "res = Inr r"
    by (cases res) (auto simp: create_tables_def)
  have "r \<noteq> None"
    using ex r execute_returns_value by blast
  then obtain u where u: "r = Some u"
    by blast
  from execute_db[OF ex] r u obtain now d0
    where "inner_create_tables now d0 = (Inr u, db w')"
    by blast
  then have "db w' = \<lparr> persons = Some [], contact_info = Some [], documents = Some [],
          persons_id_seq = 0, contact_info_id_seq = 0, documents_id_seq = 0 \<rparr>"
    by (simp add: inner_create_tables_result)
  then show "db (snd (create_tables w)) =
        \<lparr> persons = Some [], contact_info = Some [], documents = Some [],
          persons_id_seq = 0, contact_info_id_seq = 0, documents_id_seq = 0 \<rparr>"
    using ex r by (simp add: create_tables_def)
qed

subsection \<open>Patterns without metacharacters\<close>

lemma like_percent: "like ''%'' t"
  by (induction t) simp_all

lemma like_any: "like (CHR ''%'' # p) t \<longleftrightarrow> (\<exists>a b. t = a @ b \<and> like p b)"
proof (induction t)
  case Nil
  then show ?case by simp
next
  case (Cons x t)
  have "like (CHR ''%'' # p) (x # t) \<longleftrightarrow> like p (x # t) \<or> like (CHR ''%'' # p) t"
    by simp
  also have "\<dots> \<longleftrightarrow> like p (x # t) \<or> (\<exists>a b. t = a @ b \<and> like p b)"
    using Cons.IH by simp
  also have "\<dots> \<longleftrightarrow> (\<exists>a b. x # t = a @ b \<and> like p b)"
    by (auto simp: Cons_eq_append_conv) 
  finally show ?case .
qed























lemma ilike_everything: "ilike lc t ''%%''"
proof -
  have "pg_lower lc ''%%'' = ''%%''"
    by (simp add: pg_lower_def is_ascii_def lower_def)
  moreover have "like ''%%'' x" for x
    using like_percent by (simp only: like_any) blast
  ultimately show ?thesis
    by (simp only: ilike_def)
qed

lemma no_dangling_end: "c \<noteq> CHR 0x5C \<Longrightarrow> \<not> dangling_escape (p @ [c])"
  by (induction p rule: dangling_escape.induct) auto

lemma no_dangling_escape: "CHR 0x5C \<notin> set p \<Longrightarrow> \<not> dangling_escape p"
  by (induction p rule: dangling_escape.induct) auto

subsection \<open>Searching and listing\<close>

text \<open>Two operations whose results differ by a function of the value behave alike.\<close>

lemma try_block_map:
  assumes "\<And>now d. op1 now d = (map_sum id f (fst (op2 now d)), snd (op2 now d))"
  shows "try_block op1 w =
     (map_sum id f (fst (try_block op2 w)), snd (try_block op2 w))"
proof -
  obtain x working where o: "op2 (clock w) (db w) = (x, working)"
    by (cases "op2 (clock w) (db w)")
  then have o1: "op1 (clock w) (db w) = (map_sum id f x, working)"
    using assms[of "clock w" "db w"] by simp
  show ?thesis
    by (cases "next_fault w"; cases x) (simp_all add: try_block_def o o1)
qed

lemma attempts_map:
  assumes "\<And>now d. op1 now d = (map_sum id f (fst (op2 now d)), snd (op2 now d))"
  shows "attempts as m op1 w =
     (map_sum id (map_option f) (fst (attempts as m op2 w)), snd (attempts as m op2 w))"
proof (induction as arbitrary: w)
  case Nil
  then show ?case by simp
next
  case (Cons a as)
  obtain x conn w1 where t2: "try_block op2 w = (x, conn, w1)"
    by (cases "try_block op2 w")
  then have t1: "try_block op1 w = (map_sum id f x, conn, w1)"
    using try_block_map[where w = w, OF assms] by simp
  show ?case
  proof (cases x)
    case (Inl e)
    then show ?thesis
      using t1 t2 Cons.IH by (simp add: Let_def)
  next
    case (Inr r)
    then show ?thesis
      using t1 t2 by simp
  qed
qed

lemma filter_materialize_sorted:
  "map materialize (order_by_created_at_desc (map (aggregate cis ds) (filter cond ps)))
     = filter (\<lambda>r. cond (r_person r))
         (map materialize (order_by_created_at_desc (map (aggregate cis ds) ps)))"
proof -
  have a: "a_person (aggregate cis ds p) = p" for p
    by (simp add: aggregate_def Let_def)
  have m: "r_person (materialize r) = a_person r" for r
    by (simp add: materialize_def)
  have "map (aggregate cis ds) (filter cond ps)
      = filter (\<lambda>r. cond (a_person r)) (map (aggregate cis ds) ps)"
    by (simp add: filter_map comp_def a)
  then show ?thesis
    by (simp add: order_by_created_at_desc_def filter_sort filter_map comp_def m)
qed

lemma inner_get_all_records_result:
  "inner_get_all_records now d =
    (case (persons d, contact_info d, documents d) of
       (Some ps, Some cis, Some ds) \<Rightarrow>
         (Inr (map materialize (order_by_created_at_desc (map (aggregate cis ds) ps))), d)
     | _ \<Rightarrow> (Inl ProgrammingError, d))"
  by (auto simp: inner_get_all_records_def andthen_def select_persons_def returns_def
      split: option.splits)

lemma inner_search_records_result:
  assumes "nul_free q"
  shows "inner_search_records lc now q d =
     (map_sum id (filter (\<lambda>r. ilike lc (p_full_name (r_person r)) (''%'' @ q @ ''%'')))
        (fst (inner_get_all_records now d)), snd (inner_get_all_records now d))"
proof -
  define pat where "pat = ''%'' @ q @ ''%''"
  have n: "nul_free pat"
    using assms(1) by (simp add: nul_free_def pat_def)
  have dg: "\<not> dangling_escape pat"
    using no_dangling_end[of "CHR ''%''" "''%'' @ q"] by (simp add: pat_def)
  have "inner_search_records lc now q d =
    (case select_persons (\<lambda>p. ilike lc (p_full_name p) pat) True d of
       (Inl e, d') \<Rightarrow> (Inl e, d')
     | (Inr rows, d') \<Rightarrow> (Inr (map materialize rows), d'))"
    unfolding inner_search_records_def pat_def[symmetric]
    by (auto simp: andthen_def select_persons_ilike_def n dg returns_def
        split: prod.splits sum.splits)
  then show ?thesis
    unfolding inner_get_all_records_result pat_def[symmetric]
    by (auto simp: select_persons_def filter_materialize_sorted split: option.splits)
qed

lemma search_records_pattern:
  assumes "nul_free q"
  shows "search_records q w =
     (filter (\<lambda>r. ilike (lc_lower w) (p_full_name (r_person r)) (''%'' @ q @ ''%''))
        (fst (get_all_records w)),
      snd (get_all_records w))"
proof -
  let ?P = "\<lambda>r. ilike (lc_lower w) (p_full_name (r_person r)) (''%'' @ q @ ''%'')"
  obtain x w' where g: "execute_with_retry inner_get_all_records 3 w = (x, w')"
    by (cases "execute_with_retry inner_get_all_records 3 w")
  have "execute_with_retry (\<lambda>now. inner_search_records (lc_lower w) now q) 3 w =
      (map_sum id (map_option (filter ?P)) x, w')"
    using attempts_map[where ?op1.0 = "\<lambda>now. inner_search_records (lc_lower w) now q"
        and ?op2.0 = inner_get_all_records and f = "filter ?P" and as = "[0..<3]" and m = 3
        and w = w, OF inner_search_records_result[OF assms]] g
    by (simp add: execute_with_retry_def)
  moreover have "or_empty (map_option (filter ?P) y) = filter ?P (or_empty y)" for y
    by (cases y) simp_all
  ultimately show ?thesis
    using g by (cases x) (simp_all add: search_records_def get_all_records_def)
qed

text \<open>Whatever the executor returns was computed by the operation.\<close>

lemma execute_value:
  assumes "execute_with_retry operation n w = (Inr (Some r), w')"
  shows "\<exists>now d. fst (operation now d) = Inr r"
proof -
  from execute_db[OF assms] obtain now d0 where "operation now d0 = (Inr r, db w')"
    by blast
  then have "fst (operation now d0) = Inr r"
    by simp
  then show ?thesis
    by blast
qed

lemma newest_first_listing: "newest_first (map materialize (order_by_created_at_desc rows))"
proof -
  have "sorted (map (\<lambda>a. - p_created_at (a_person a)) (order_by_created_at_desc rows))"
    by (simp add: order_by_created_at_desc_def)
  then show ?thesis
    by (simp add: newest_first_def sorted_map sorted_wrt_map materialize_def)
qed


lemma get_all_records_newest_first: "newest_first (fst (get_all_records w))"
proof -
  obtain x w' where g: "execute_with_retry inner_get_all_records 3 w = (x, w')"
    by (cases "execute_with_retry inner_get_all_records 3 w")
  show ?thesis
  proof (cases x)
    case (Inl e)
    then show ?thesis
      using g by (simp add: get_all_records_def newest_first_def)
  next
    case (Inr r)
    show ?thesis
    proof (cases r)
      case None
      then show ?thesis
        using g Inr by (simp add: get_all_records_def newest_first_def)
    next
      case (Some rs)
      from execute_value[OF g[unfolded Inr Some]] obtain now d
        where "fst (inner_get_all_records now d) = Inr rs"
        by blast
      then have "newest_first rs"
        by (auto simp: inner_get_all_records_result newest_first_listing split: option.splits)
      then show ?thesis
        using g Inr Some by (simp add: get_all_records_def)
    qed
  qed
qed


lemma get_all_records_calm:
  assumes "calm w" and "persons (db w) = Some ps" and "contact_info (db w) = Some cis"
    and "documents (db w) = Some ds"
  shows "get_all_records w =
    (map materialize (order_by_created_at_desc (map (aggregate cis ds) ps)),
     w\<lparr>trace := trace w @ [GetConn, Commit, PutConn]\<rparr>)"
proof -
  have "inner_get_all_records now (db w) =
      (Inr (map materialize (order_by_created_at_desc (map (aggregate cis ds) ps))), db w)" for now
    using assms(2-4) by (simp add: inner_get_all_records_result)
  then show ?thesis
    using assms(1) by (simp add: get_all_records_def calm_def execute_ok)
qed

lemma persons_of_listing:
  "map r_person (map materialize (order_by_created_at_desc (map (aggregate cis ds) ps)))
     = map a_person (order_by_created_at_desc (map (aggregate cis ds) ps))"
  "mset (map a_person (order_by_created_at_desc (map (aggregate cis ds) ps))) = mset ps"
proof -
  show "map r_person (map materialize (order_by_created_at_desc (map (aggregate cis ds) ps)))
     = map a_person (order_by_created_at_desc (map (aggregate cis ds) ps))"
    by (simp add: materialize_def comp_def)
  have "mset (map a_person (order_by_created_at_desc (map (aggregate cis ds) ps)))
      = image_mset a_person (mset (map (aggregate cis ds) ps))"
    by (simp add: order_by_created_at_desc_def)
  also have "\<dots> = mset ps"
    by (simp add: aggregate_def Let_def comp_def multiset.map_comp)
  finally show "mset (map a_person (order_by_created_at_desc (map (aggregate cis ds) ps))) = mset ps" .
qed

subsection \<open>Frames of the statements\<close>

lemma keeps_andthen:
  assumes "keeps f m" and "\<And>a. keeps f (g a)"
  shows "keeps f (andthen m g)"
proof -
  have "f (snd (andthen m g d)) = f d" for d
  proof (cases "m d")
    case (Pair x d')
    then have d': "f d' = f d"
      using assms(1)[unfolded keeps_def, rule_format, of d] by simp
    show ?thesis
    proof (cases x)
      case (Inl e)
      then show ?thesis using Pair d' by (simp add: andthen_def)
    next
      case (Inr a)
      then show ?thesis
        using Pair d' assms(2)[of a, unfolded keeps_def, rule_format, of d']
        by (simp add: andthen_def)
    qed
  qed
  then show ?thesis by (simp add: keeps_def)
qed

lemma keeps_returns: "keeps f (returns a)"
  by (simp add: keeps_def returns_def)

lemma keeps_lift: "keeps f (lift r)"
  by (cases r) (simp_all add: keeps_def lift_def)

lemma keeps_for_each:
  assumes "\<And>x. keeps f (body x)"
  shows "keeps f (for_each xs body)"
proof -
  have "f (snd (for_each xs body d)) = f d" for d
  proof (induction xs arbitrary: d)
    case Nil
    then show ?case by simp
  next
    case (Cons x xs)
    obtain r d' where s: "body x d = (r, d')"
      by (cases "body x d")
    then have d': "f d' = f d"
      using assms[of x, unfolded keeps_def, rule_format, of d] by simp
    show ?case
      using s d' Cons.IH[of d'] by (cases r) simp_all
  qed
  then show ?thesis by (simp add: keeps_def)
qed

lemma keeps_for_in:
  assumes "\<And>x. keeps f (body x)"
  shows "keeps f (for_in xs body)"
  unfolding for_in_def by (intro keeps_andthen keeps_lift keeps_for_each assms)

lemma keeps_if: "keeps f m \<Longrightarrow> keeps f n \<Longrightarrow> keeps f (if b then m else n)"
  by simp

text \<open>The statements of \<open>_update_record\<close>.\<close>

lemma set_columns_id:
  "p_id (set_columns v r) = p_id r" "p_created_at (set_columns v r) = p_created_at r"
  by (simp_all add: set_columns_def)

lemma set_columns_keeps:
  "map (\<lambda>p. (p_id p, p_created_at p))
     (map (\<lambda>r. if p_id r = record_id then set_columns v r else r) rows)
     = map (\<lambda>p. (p_id p, p_created_at p)) rows"
  "filter (\<lambda>p. p_id p \<noteq> record_id)
     (map (\<lambda>r. if p_id r = record_id then set_columns v r else r) rows)
     = filter (\<lambda>p. p_id p \<noteq> record_id) rows"
  by (induction rows) (simp_all add: set_columns_def)

lemma update_persons_keeps:
  "keeps ids_and_created_at (update_persons v record_id)"
  "keeps (other_rows record_id) (update_persons v record_id)"
  by (auto simp: keeps_def update_persons_def ids_and_created_at_def other_rows_def
      set_columns_keeps set_columns_id split: option.splits)

lemma insert_contact_info_keeps:
  "keeps ids_and_created_at (insert_contact_info record_id k v)"
  "keeps (other_rows record_id) (insert_contact_info record_id k v)"
  by (auto simp: keeps_def insert_contact_info_def ids_and_created_at_def other_rows_def Let_def
      split: option.splits)

lemma insert_documents_keeps:
  "keeps ids_and_created_at (insert_documents record_id u k)"
  "keeps (other_rows record_id) (insert_documents record_id u k)"
  by (auto simp: keeps_def insert_documents_def ids_and_created_at_def other_rows_def Let_def
      split: option.splits)

lemma delete_where_keeps:
  "keeps ids_and_created_at (delete_contact_info_where record_id)"
  "keeps (other_rows record_id) (delete_contact_info_where record_id)"
  "keeps ids_and_created_at (delete_documents_where record_id)"
  "keeps (other_rows record_id) (delete_documents_where record_id)"
  by (auto simp: keeps_def delete_contact_info_where_def delete_documents_where_def
      ids_and_created_at_def other_rows_def split: option.splits)

lemma inner_update_record_keeps:
  "keeps ids_and_created_at (inner_update_record now record_id updated_data)"
  "keeps (other_rows record_id) (inner_update_record now record_id updated_data)"
  unfolding inner_update_record_def
  by (intro keeps_andthen keeps_lift keeps_returns keeps_for_in keeps_if
      update_persons_keeps insert_contact_info_keeps insert_documents_keeps delete_where_keeps)+

lemma execute_keeps:
  assumes k: "\<And>now. keeps f (operation now)"
    and t: "\<And>d d'. same_tables d d' \<Longrightarrow> f d = f d'"
  shows "f (db (snd (execute_with_retry operation n w))) = f (db w)"
proof -
  obtain res w' where ex: "execute_with_retry operation n w = (res, w')"
    by (cases "execute_with_retry operation n w")
  note D = execute_db[OF ex]
  have "f (db w') = f (db w)"
  proof (cases res)
    case (Inl e)
    then show ?thesis using D t by blast
  next
    case (Inr r)
    show ?thesis
    proof (cases r)
      case None
      then show ?thesis using D Inr t by blast
    next
      case (Some x)
      with D Inr obtain now d0 where o: "operation now d0 = (Inr x, db w')"
        and s: "same_tables d0 (db w)"
        by blast
      have "f (db w') = f d0"
        using k[of now, unfolded keeps_def, rule_format, of d0] o by simp
      then show ?thesis using t[OF s] by simp
    qed
  qed
  then show ?thesis by (simp add: ex)
qed

lemma same_tables_observed:
  assumes "same_tables d d'"
  shows "ids_and_created_at d = ids_and_created_at d'" and "other_rows i d = other_rows i d'"
  using assms by (simp_all add: same_tables_def ids_and_created_at_def other_rows_def)

lemma snd_update_record:
  "snd (update_record record_id updated_data w) =
     snd (execute_with_retry (\<lambda>now. inner_update_record now record_id updated_data) 3 w)"
  by (simp add: update_record_def split: prod.splits sum.splits option.splits)

lemma update_record_frame:
  "ids_and_created_at (db (snd (update_record record_id updated_data w)))
     = ids_and_created_at (db w)"
  "other_rows record_id (db (snd (update_record record_id updated_data w)))
     = other_rows record_id (db w)"
  unfolding snd_update_record
  by (intro execute_keeps inner_update_record_keeps same_tables_observed; assumption)+

subsection \<open>Updating\<close>

lemma for_in_nothing:
  assumes "f \<noteq> PyNone" and "items f = []"
  shows "for_in f body d = (Inr (), d)"
  using assms by (simp add: for_in_items)

text \<open>\<open>_update_record\<close> on an id that is not stored, with no child to insert.\<close>

lemma inner_update_record_missing:
  assumes "wf d" and "valid_payload record"
    and "record_id \<notin> p_id ` set (the (persons d))"
    and "items (mobile_numbers record) = []" and "items (whatsapp_numbers record) = []"
    and "items (facebook_links record) = []" and "items (website_links record) = []"
    and "items (pdf_urls record) = []"
  shows "inner_update_record now record_id record d = (Inr True, d)"
proof -
  from assms(1) obtain ps cis ds where t: "persons d = Some ps" "contact_info d = Some cis"
      "documents d = Some ds"
    and inv: "\<forall>c \<in> set cis. ci_id c \<le> contact_info_id_seq d \<and> ci_person_id c \<in> p_id ` set ps"
      "\<forall>x \<in> set ds. d_id x \<le> documents_id_seq d \<and> d_person_id x \<in> p_id ` set ps"
    by (rule wfE)
  from assms(2) obtain v where v: "values_of record = Inr v" "adaptable v" "coercible v"
    by (rule values_of_valid) blast
  note V = assms(2)[unfolded valid_payload_def]
  have nn: "mobile_numbers record \<noteq> PyNone" "whatsapp_numbers record \<noteq> PyNone"
    "facebook_links record \<noteq> PyNone" "website_links record \<noteq> PyNone"
    "pdf_urls record \<noteq> PyNone"
    using V each_of_items by blast+
  have missing: "record_id \<notin> p_id ` set ps"
    using assms(3) t by simp
  have 1: "lift (values_of record) d = (Inr v, d)"
    by (simp add: lift_def v(1))
  have "map (\<lambda>r. if p_id r = record_id then set_columns v r else r) ps = ps"
    using missing by (intro map_idI) auto
  then have 2: "update_persons v record_id d = (Inr (), d)"
    using t v missing by (simp add: update_persons_def)
  have "filter (\<lambda>c. ci_person_id c \<noteq> record_id) cis = cis"
    using inv(1) missing by (intro filter_True) metis
  then have 3: "delete_contact_info_where record_id d = (Inr (), d)"
    using t by (simp add: delete_contact_info_where_def)
  have "filter (\<lambda>x. d_person_id x \<noteq> record_id) ds = ds"
    using inv(2) missing by (intro filter_True) metis
  then have 4: "delete_documents_where record_id d = (Inr (), d)"
    using t by (simp add: delete_documents_where_def)
  note 5 = for_in_nothing[OF nn(1) assms(4)] for_in_nothing[OF nn(2) assms(5)]
    for_in_nothing[OF nn(3) assms(6)] for_in_nothing[OF nn(4) assms(7)]
    for_in_nothing[OF nn(5) assms(8)]
  show ?thesis
    unfolding inner_update_record_def
    by (simp add: andthen_def 1 2 3 4 5 returns_def)
qed

lemma update_record_missing:
  assumes "calm w" and "wf (db w)" and "valid_payload record"
    and "record_id \<notin> p_id ` set (the (persons (db w)))"
    and "items (mobile_numbers record) = []" and "items (whatsapp_numbers record) = []"
    and "items (facebook_links record) = []" and "items (website_links record) = []"
    and "items (pdf_urls record) = []"
  shows "update_record record_id record w =
     (True, w\<lparr>trace := trace w @ [GetConn, Commit, PutConn]\<rparr>)"
proof -
  have "inner_update_record now record_id record (db w) = (Inr True, db w)" for now
    by (rule inner_update_record_missing[OF assms(2-9)])
  then show ?thesis
    using assms(1) by (simp add: update_record_def calm_def execute_ok)
qed

lemma stored_row_id: "p_id (stored_row record i t) = i" "p_created_at (stored_row record i t) = t"
  by (simp_all add: stored_row_def)

lemma map_p_id_restored:
  "map p_id (map (\<lambda>r. if p_id r = record_id
                       then stored_row record (p_id r) (p_created_at r) else r) ps)
     = map p_id ps"
  by (induction ps) (simp_all add: stored_row_id)

lemma inner_update_record_ok:
  assumes "wf d" and "valid_payload record" and "record_id \<in> p_id ` set (the (persons d))"
  shows "inner_update_record now record_id record d = (Inr True, after_update record_id record d)"
proof -
  from assms(1) obtain ps cis ds where t: "persons d = Some ps" "contact_info d = Some cis"
      "documents d = Some ds"
    and inv: "\<forall>c \<in> set cis. ci_id c \<le> contact_info_id_seq d \<and> ci_person_id c \<in> p_id ` set ps"
      "\<forall>x \<in> set ds. d_id x \<le> documents_id_seq d \<and> d_person_id x \<in> p_id ` set ps"
    by (rule wfE)
  from assms(2) obtain v where v: "values_of record = Inr v" "adaptable v" "coercible v"
      "not_null v" "\<And>r. set_columns v r = stored_row record (p_id r) (p_created_at r)"
    by (rule values_of_valid) blast
  note V = assms(2)[unfolded valid_payload_def]
  have present: "record_id \<in> p_id ` set ps"
    using assms(3) t by simp
  let ?ps = "map (\<lambda>r. if p_id r = record_id
                       then stored_row record (p_id r) (p_created_at r) else r) ps"
  have ids: "p_id ` set ?ps = p_id ` set ps"
    using map_p_id_restored[of record_id "record" ps] by (metis set_map)
  let ?d1 = "d\<lparr>persons := Some ?ps\<rparr>"
  have 1: "lift (values_of record) d = (Inr v, d)"
    by (simp add: lift_def v(1))
  have 2: "update_persons v record_id d = (Inr (), ?d1)"
    using t v by (simp add: update_persons_def)
  let ?cis = "filter (\<lambda>c. ci_person_id c \<noteq> record_id) cis"
  let ?d2 = "?d1\<lparr>contact_info := Some ?cis\<rparr>"
  have 3: "delete_contact_info_where record_id ?d1 = (Inr (), ?d2)"
    using t by (simp add: delete_contact_info_where_def)
  let ?d3 = "?d2\<lparr>contact_info :=
                  Some (?cis @ payload_contacts (contact_info_id_seq ?d2) record_id record),
                contact_info_id_seq := contact_info_id_seq ?d2 + contact_count record\<rparr>"
  have ref: "references_person ?d2 record_id" "references_person ?d3 record_id"
    using present ids by (simp_all add: references_person_def)
  have 4: "andthen (for_in (mobile_numbers record) (insert_contact_info record_id ''mobile'')) (\<lambda>_.
         andthen (for_in (whatsapp_numbers record) (insert_contact_info record_id ''whatsapp'')) (\<lambda>_.
         andthen (for_in (facebook_links record) (insert_contact_info record_id ''facebook'')) (\<lambda>_.
         andthen (for_in (website_links record) (insert_contact_info record_id ''website'')) (\<lambda>_.
         rest)))) ?d2 = rest ?d3" for rest :: "bool stmt"
    using inv V by (intro contact_loops ref) simp_all
  let ?tail = "andthen (if has_key (pdf_urls record)
              then andthen (delete_documents_where record_id) (\<lambda>_.
                   for_in (pdf_urls record) (\<lambda>u. insert_documents record_id u ''pdf''))
              else returns ()) (\<lambda>_. returns True)"
  have 5: "?tail ?d3 = (Inr True, after_update record_id record d)"
  proof (cases "has_key (pdf_urls record)")
    case True
    let ?ds = "filter (\<lambda>x. d_person_id x \<noteq> record_id) ds"
    let ?d4 = "?d3\<lparr>documents := Some ?ds\<rparr>"
    have a: "delete_documents_where record_id ?d3 = (Inr (), ?d4)"
      using t by (simp add: delete_documents_where_def)
    let ?d5 = "?d4\<lparr>documents := Some (?ds @ new_documents (documents_id_seq ?d4) record_id ''pdf''
                                        (items (pdf_urls record))),
               documents_id_seq := documents_id_seq ?d4 + int (length (items (pdf_urls record)))\<rparr>"
    have ref4: "references_person ?d4 record_id"
      using present ids by (simp add: references_person_def)
    have b: "for_in (pdf_urls record) (\<lambda>u. insert_documents record_id u ''pdf'') ?d4 = (Inr (), ?d5)"
      using inv V by (intro document_loop ref4) simp_all
    have eq: "?d5 = after_update record_id record d"
      using t True by (simp add: after_update_def)
    show ?thesis
      using True by (simp only: andthen_def a b prod.case sum.case returns_def if_True eq)
  next
    case False
    have eq: "?d3 = after_update record_id record d"
      using t False by (simp add: after_update_def)
    show ?thesis
      using False by (simp only: andthen_def prod.case sum.case returns_def if_False eq)
  qed
  have "inner_update_record now record_id record d = ?tail ?d3"
    unfolding inner_update_record_def
    by (subst andthen_def, simp only: 1 prod.case sum.case,
        subst andthen_def, simp only: 2 prod.case sum.case,
        subst andthen_def, simp only: 3 prod.case sum.case, rule 4)
  then show ?thesis
    by (simp only: 5)
qed

lemma update_record_calm:
  assumes "calm w" and "wf (db w)" and "valid_payload record"
    and "record_id \<in> p_id ` set (the (persons (db w)))"
  shows "update_record record_id record w =
    (True, w\<lparr>db := after_update record_id record (db w),
             trace := trace w @ [GetConn, Commit, PutConn]\<rparr>)"
proof -
  have "inner_update_record now record_id record (db w)
      = (Inr True, after_update record_id record (db w))" for now
    by (rule inner_update_record_ok[OF assms(2-4)])
  then show ?thesis
    using assms(1) by (simp add: update_record_def calm_def execute_ok)
qed

lemma get_record_after_update:
  assumes "calm w" and "wf (db w)" and "p0 \<in> set (the (persons (db w)))"
    and "items (mobile_numbers record) \<noteq> []" and "items (whatsapp_numbers record) \<noteq> []"
    and "items (facebook_links record) \<noteq> []" and "items (website_links record) \<noteq> []"
  shows "\<exists>r w2.
     get_record (p_id p0) (w\<lparr>db := after_update (p_id p0) record (db w), trace := tr\<rparr>)
       = (Inr (Some r), w2) \<and>
     r_person r = stored_row record (p_id p0) (p_created_at p0) \<and>
     mset (r_mobile_numbers r)
       = mset (remdups (filter (\<lambda>s. s \<noteq> []) (items (mobile_numbers record)))) \<and>
     mset (r_whatsapp_numbers r)
       = mset (remdups (filter (\<lambda>s. s \<noteq> []) (items (whatsapp_numbers record)))) \<and>
     mset (r_facebook_links r)
       = mset (remdups (filter (\<lambda>s. s \<noteq> []) (items (facebook_links record)))) \<and>
     mset (r_website_links r)
       = mset (remdups (filter (\<lambda>s. s \<noteq> []) (items (website_links record)))) \<and>
     mset (r_pdf_urls r)
       = mset (remdups (filter (\<lambda>s. s \<noteq> [])
           (if has_key (pdf_urls record) then items (pdf_urls record)
            else urls_for (the (documents (db w))) (p_id p0) ''pdf'')))"
proof -
  let ?d = "db w" and ?i = "p_id p0"
  from assms(2) obtain ps cis ds where t: "persons ?d = Some ps" "contact_info ?d = Some cis"
      "documents ?d = Some ds"
    and inv: "distinct (map p_id ps)"
    by (rule wfE)
  have p0: "p0 \<in> set ps"
    using assms(3) t by simp
  let ?p = "stored_row record ?i (p_created_at p0)"
  let ?ps = "map (\<lambda>r. if p_id r = ?i
                       then stored_row record (p_id r) (p_created_at r) else r) ps"
  let ?cis = "filter (\<lambda>c. ci_person_id c \<noteq> ?i) cis
                @ payload_contacts (contact_info_id_seq ?d) ?i record"
  let ?ds = "if has_key (pdf_urls record)
             then filter (\<lambda>x. d_person_id x \<noteq> ?i) ds
                    @ new_documents (documents_id_seq ?d) ?i ''pdf'' (items (pdf_urls record))
             else ds"
  let ?w1 = "w\<lparr>db := after_update ?i record ?d, trace := tr\<rparr>"
  have pid: "p_id ?p = ?i"
    by (simp add: stored_row_id)
  have mem: "?p \<in> set ?ps"
    using p0 by (auto simp: image_iff intro!: bexI[of _ p0])
  have dist: "distinct (map p_id ?ps)"
    using inv by (simp only: map_p_id_restored)
  have vals: "values_for ?cis ?i ''mobile'' = items (mobile_numbers record)"
    "values_for ?cis ?i ''whatsapp'' = items (whatsapp_numbers record)"
    "values_for ?cis ?i ''facebook'' = items (facebook_links record)"
    "values_for ?cis ?i ''website'' = items (website_links record)"
    by (simp_all add: values_for_append values_for_filter_other values_for_payload_contacts)
  have urls: "urls_for ?ds ?i ''pdf'' =
      (if has_key (pdf_urls record) then items (pdf_urls record) else urls_for ds ?i ''pdf'')"
    by (simp add: urls_for_append urls_for_filter_other urls_for_new_documents)
  have "get_record (p_id ?p) ?w1 =
    (Inr (Some (materialize (aggregate ?cis ?ds ?p))),
     ?w1\<lparr>trace := trace ?w1 @ [GetConn, Commit, PutConn]\<rparr>)"
  proof (rule get_record_found)
    show "calm ?w1" using assms(1) by (simp add: calm_def)
    show "persons (db ?w1) = Some ?ps" "contact_info (db ?w1) = Some ?cis"
      "documents (db ?w1) = Some ?ds"
      using t by (simp_all add: after_update_def)
    show "distinct (map p_id ?ps)" by (rule dist)
    show "?p \<in> set ?ps" by (rule mem)
    show "values_for ?cis (p_id ?p) ''mobile'' \<noteq> []" "values_for ?cis (p_id ?p) ''whatsapp'' \<noteq> []"
      "values_for ?cis (p_id ?p) ''facebook'' \<noteq> []" "values_for ?cis (p_id ?p) ''website'' \<noteq> []"
      using assms(4-7) by (simp_all only: pid vals not_False_eq_True)
  qed
  then show ?thesis
    using vals urls t by (simp only: pid) (simp add: materialize_aggregate pid)
qed

subsection \<open>Listing all persons\<close>

lemma get_all_records_lists:
  assumes "calm w" and "wf (db w)" and "r \<in> set (fst (get_all_records w))"
  shows "mset (r_mobile_numbers r) = mset (remdups (filter (\<lambda>s. s \<noteq> [])
           (values_for (the (contact_info (db w))) (p_id (r_person r)) ''mobile'')))"
    and "mset (r_whatsapp_numbers r) = mset (remdups (filter (\<lambda>s. s \<noteq> [])
           (values_for (the (contact_info (db w))) (p_id (r_person r)) ''whatsapp'')))"
    and "mset (r_facebook_links r) = mset (remdups (filter (\<lambda>s. s \<noteq> [])
           (values_for (the (contact_info (db w))) (p_id (r_person r)) ''facebook'')))"
    and "mset (r_website_links r) = mset (remdups (filter (\<lambda>s. s \<noteq> [])
           (values_for (the (contact_info (db w))) (p_id (r_person r)) ''website'')))"
    and "mset (r_pdf_urls r) = mset (remdups (filter (\<lambda>s. s \<noteq> [])
           (urls_for (the (documents (db w))) (p_id (r_person r)) ''pdf'')))"
proof -
  from assms(2) obtain ps cis ds where t: "persons (db w) = Some ps"
      "contact_info (db w) = Some cis" "documents (db w) = Some ds"
    by (auto elim: wfE)
  have "fst (get_all_records w) =
      map materialize (order_by_created_at_desc (map (aggregate cis ds) ps))"
    using assms(1) t by (simp add: get_all_records_calm)
  then obtain p where r: "r = materialize (aggregate cis ds p)"
    using assms(3) by (auto simp: order_by_created_at_desc_def)
  show "mset (r_mobile_numbers r) = mset (remdups (filter (\<lambda>s. s \<noteq> [])
           (values_for (the (contact_info (db w))) (p_id (r_person r)) ''mobile'')))"
    and "mset (r_whatsapp_numbers r) = mset (remdups (filter (\<lambda>s. s \<noteq> [])
           (values_for (the (contact_info (db w))) (p_id (r_person r)) ''whatsapp'')))"
    and "mset (r_facebook_links r) = mset (remdups (filter (\<lambda>s. s \<noteq> [])
           (values_for (the (contact_info (db w))) (p_id (r_person r)) ''facebook'')))"
    and "mset (r_website_links r) = mset (remdups (filter (\<lambda>s. s \<noteq> [])
           (values_for (the (contact_info (db w))) (p_id (r_person r)) ''website'')))"
    and "mset (r_pdf_urls r) = mset (remdups (filter (\<lambda>s. s \<noteq> [])
           (urls_for (the (documents (db w))) (p_id (r_person r)) ''pdf'')))"
    unfolding r by (simp_all add: materialize_aggregate t)
qed

lemma get_all_records_persons:
  assumes "calm w" and "wf (db w)"
  shows "mset (map r_person (fst (get_all_records w))) = mset (the (persons (db w)))"
proof -
  from assms(2) obtain ps cis ds where t: "persons (db w) = Some ps"
      "contact_info (db w) = Some cis" "documents (db w) = Some ds"
    by (auto elim: wfE)
  have g: "fst (get_all_records w) =
      map materialize (order_by_created_at_desc (map (aggregate cis ds) ps))"
    using assms(1) t by (simp add: get_all_records_calm)
  have p: "the (persons (db w)) = ps"
    using t by simp
  show ?thesis
    unfolding g p persons_of_listing(1) by (rule persons_of_listing(2))
qed

lemma add_record_next:
  assumes "calm w" and "wf (db w)" and "valid_payload record" and "persons (db w) = Some ps"
  shows "\<exists>w1. add_record record w = (Some (persons_id_seq (db w) + 1), w1) \<and>
     calm w1 \<and> wf (db w1) \<and> calm (at_time t w1) \<and> wf (db (at_time t w1)) \<and>
     persons_id_seq (db (at_time t w1)) = persons_id_seq (db w) + 1 \<and>
     clock (at_time t w1) = t \<and>
     persons (db (at_time t w1)) =
       Some (ps @ [stored_row record (persons_id_seq (db w) + 1) (clock w)])"
proof -
  let ?w1 = "w\<lparr>db := after_add (clock w) record (db w),
       trace := trace w @ [GetConn, Commit, PutConn]\<rparr>"
  have "add_record record w = (Some (persons_id_seq (db w) + 1), ?w1)"
    using assms(1-3) by (rule add_record_calm)
  moreover have "calm ?w1" "calm (at_time t ?w1)"
    using assms(1) by (simp_all add: calm_def at_time_def)
  moreover have "wf (db ?w1)" "wf (db (at_time t ?w1))"
    using wf_after_add[OF assms(2)] by (simp_all add: at_time_def)
  moreover have "persons_id_seq (db (at_time t ?w1)) = persons_id_seq (db w) + 1"
    "clock (at_time t ?w1) = t"
    "persons (db (at_time t ?w1)) =
       Some (ps @ [stored_row record (persons_id_seq (db w) + 1) (clock w)])"
    using assms(4) by (simp_all add: at_time_def after_add_def Let_def)
  ultimately show ?thesis
    by blast
qed

lemma listing_of_three:
  assumes "calm w" and "persons (db w) = Some [ra, rb, rc]"
    and "contact_info (db w) \<noteq> None" and "documents (db w) \<noteq> None"
    and "p_created_at ra < p_created_at rb" and "p_created_at rb < p_created_at rc"
  shows "map r_person (fst (get_all_records w)) = [rc, rb, ra]"
proof -
  from assms(3,4) obtain cis ds where t: "contact_info (db w) = Some cis"
      "documents (db w) = Some ds"
    by auto
  have a: "a_person (aggregate cis ds p) = p" for p
    by (simp add: aggregate_def Let_def)
  have "fst (get_all_records w) =
      map materialize (order_by_created_at_desc (map (aggregate cis ds) [ra, rb, rc]))"
    using assms(1,2) t by (simp add: get_all_records_calm)
  then have "map r_person (fst (get_all_records w)) =
      map a_person (order_by_created_at_desc (map (aggregate cis ds) [ra, rb, rc]))"
    by (simp only: persons_of_listing(1))
  then show ?thesis
    using assms(5,6) by (simp add: order_by_created_at_desc_def a)
qed

lemma three_adds:
  assumes "calm w" and "wf (db w)" and "persons (db w) = Some []"
    and "valid_payload a" and "valid_payload b" and "valid_payload c"
    and "clock w < t1" and "t1 < t2"
  shows "\<exists>ia ib ic w1 w2 w3.
      add_record a w = (Some ia, w1) \<and>
      add_record b (at_time t1 w1) = (Some ib, w2) \<and>
      add_record c (at_time t2 w2) = (Some ic, w3) \<and>
      map r_person (fst (get_all_records w3)) =
        [stored_row c ic t2, stored_row b ib t1, stored_row a ia (clock w)]"
proof -
  let ?i = "persons_id_seq (db w)"
  from add_record_next[OF assms(1,2,4,3), of t1] obtain w1 where
    1: "add_record a w = (Some (?i + 1), w1)"
      "calm (at_time t1 w1)" "wf (db (at_time t1 w1))"
      "persons_id_seq (db (at_time t1 w1)) = ?i + 1" "clock (at_time t1 w1) = t1"
      "persons (db (at_time t1 w1)) = Some ([] @ [stored_row a (?i + 1) (clock w)])"
    by blast
  from add_record_next[OF 1(2,3) assms(5) 1(6), of t2] obtain w2 where
    2: "add_record b (at_time t1 w1) = (Some (?i + 1 + 1), w2)"
      "calm (at_time t2 w2)" "wf (db (at_time t2 w2))"
      "persons_id_seq (db (at_time t2 w2)) = ?i + 1 + 1" "clock (at_time t2 w2) = t2"
      "persons (db (at_time t2 w2)) =
         Some (([] @ [stored_row a (?i + 1) (clock w)]) @ [stored_row b (?i + 1 + 1) t1])"
    unfolding 1(4,5) by blast
  from add_record_next[OF 2(2,3) assms(6) 2(6), of t2] obtain w3 where
    3: "add_record c (at_time t2 w2) = (Some (?i + 1 + 1 + 1), w3)"
      "calm w3" "wf (db w3)"
      "persons (db (at_time t2 w3)) =
         Some ((([] @ [stored_row a (?i + 1) (clock w)]) @ [stored_row b (?i + 1 + 1) t1])
               @ [stored_row c (?i + 1 + 1 + 1) t2])"
    unfolding 2(4,5) by blast
  have p: "persons (db w3) = Some [stored_row a (?i + 1) (clock w),
      stored_row b (?i + 1 + 1) t1, stored_row c (?i + 1 + 1 + 1) t2]"
    using 3(4) by (simp add: at_time_def)
  have t: "contact_info (db w3) \<noteq> None" "documents (db w3) \<noteq> None"
    using 3(3) by (auto elim: wfE)
  have "map r_person (fst (get_all_records w3)) =
      [stored_row c (?i + 1 + 1 + 1) t2, stored_row b (?i + 1 + 1) t1,
       stored_row a (?i + 1) (clock w)]"
    using 3(2) p t by (rule listing_of_three) (simp_all add: stored_row_id assms(7,8))
  then have "add_record a w = (Some (?i + 1), w1) \<and>
      add_record b (at_time t1 w1) = (Some (?i + 1 + 1), w2) \<and>
      add_record c (at_time t2 w2) = (Some (?i + 1 + 1 + 1), w3) \<and>
      map r_person (fst (get_all_records w3)) =
        [stored_row c (?i + 1 + 1 + 1) t2, stored_row b (?i + 1 + 1) t1,
         stored_row a (?i + 1) (clock w)]"
    using 1(1) 2(1) 3(1) by (intro conjI)
  then show ?thesis
    by (intro exI)
qed

section \<open>The claims\<close>

subsection \<open>C1: \<open>get_record\<close> after \<open>add_record\<close>\<close>

text \<open>
  The claim says that the child lists come back as the multisets that were submitted,
  duplicates included. At the payload \<open>alice\<close>, whose mobile number is entered twice,
  \<open>add_record\<close> on the empty store returns id 1 and \<open>get_record 1\<close> returns the number
  once: \<open>array_agg(DISTINCT ...)\<close> collapses the two rows.
\<close>

theorem add_then_get_drops_duplicates:
  "valid_payload alice \<and>
   fst (add_record alice ready) = Some 1 \<and>
   map_sum id (map_option r_mobile_numbers)
     (fst (get_record 1 (snd (add_record alice ready)))) = Inr (Some [''017'']) \<and>
   mset [''017''] \<noteq> mset (items (mobile_numbers alice))"
proof -
  have "valid_payload alice"
    by (simp add: valid_payload_def alice_def text_within_def nul_free_def)
  moreover have "fst (add_record alice ready) = Some 1"
    by code_simp
  moreover have "map_sum id (map_option r_mobile_numbers)
     (fst (get_record 1 (snd (add_record alice ready)))) = Inr (Some [''017''])"
    by code_simp
  moreover have "mset [''017''] \<noteq> mset (items (mobile_numbers alice))"
    by (simp add: alice_def)
  ultimately show ?thesis by blast
qed

text \<open>
  C1 as amended. In a world without connectivity faults, on a reachable database, for every
  valid payload whose four contact lists are non-empty: \<open>add_record\<close> returns an id, and
  \<open>get_record\<close> on that id returns a record whose person columns are the payload's scalar
  fields with that id and the clock reading as \<open>created_at\<close>, and whose five lists hold
  exactly the distinct non-empty values of the lists submitted, in some order.
\<close>

theorem add_then_get_record:
  assumes "calm w" and "wf (db w)" and "valid_payload record"
    and "items (mobile_numbers record) \<noteq> []" and "items (whatsapp_numbers record) \<noteq> []"
    and "items (facebook_links record) \<noteq> []" and "items (website_links record) \<noteq> []"
  shows "\<exists>person_id w1 r w2.
     add_record record w = (Some person_id, w1) \<and>
     get_record person_id w1 = (Inr (Some r), w2) \<and>
     r_person r = stored_row record person_id (clock w) \<and>
     mset (r_mobile_numbers r)
       = mset (remdups (filter (\<lambda>s. s \<noteq> []) (items (mobile_numbers record)))) \<and>
     mset (r_whatsapp_numbers r)
       = mset (remdups (filter (\<lambda>s. s \<noteq> []) (items (whatsapp_numbers record)))) \<and>
     mset (r_facebook_links r)
       = mset (remdups (filter (\<lambda>s. s \<noteq> []) (items (facebook_links record)))) \<and>
     mset (r_website_links r)
       = mset (remdups (filter (\<lambda>s. s \<noteq> []) (items (website_links record)))) \<and>
     mset (r_pdf_urls r)
       = mset (remdups (filter (\<lambda>s. s \<noteq> []) (items (pdf_urls record))))"
proof -
  have "add_record record w =
    (Some (persons_id_seq (db w) + 1),
     w\<lparr>db := after_add (clock w) record (db w),
       trace := trace w @ [GetConn, Commit, PutConn]\<rparr>)"
    using assms(1-3) by (rule add_record_calm)
  moreover note get_record_after_add[where now = "clock w"
      and tr = "trace w @ [GetConn, Commit, PutConn]", OF assms(1,2,4-7)]
  ultimately show ?thesis by blast
qed

theorem add_then_get_record_witness:
  "calm ready \<and> wf (db ready) \<and> valid_payload alice \<and>
   items (mobile_numbers alice) \<noteq> [] \<and> items (whatsapp_numbers alice) \<noteq> [] \<and>
   items (facebook_links alice) \<noteq> [] \<and> items (website_links alice) \<noteq> [] \<and>
   (\<exists>person_id w1 r w2.
     add_record alice ready = (Some person_id, w1) \<and>
     get_record person_id w1 = (Inr (Some r), w2) \<and>
     r_person r = stored_row alice person_id (clock ready) \<and>
     mset (r_mobile_numbers r) = mset [''017''] \<and>
     mset (r_pdf_urls r) = mset [''img.example/p1''])"
proof -
  have h: "calm ready" "wf (db ready)" "valid_payload alice"
    "items (mobile_numbers alice) \<noteq> []" "items (whatsapp_numbers alice) \<noteq> []"
    "items (facebook_links alice) \<noteq> []" "items (website_links alice) \<noteq> []"
    by (simp_all add: calm_def wf_def ready_def valid_payload_def alice_def text_within_def
        nul_free_def)
  have v: "remdups (filter (\<lambda>s. s \<noteq> []) (items (mobile_numbers alice))) = [''017'']"
    "remdups (filter (\<lambda>s. s \<noteq> []) (items (pdf_urls alice))) = [''img.example/p1'']"
    by (simp_all add: alice_def)
  show ?thesis
    using add_then_get_record[OF h] h unfolding v by blast
qed

subsection \<open>C2: exceptions at the boundary of the public methods\<close>

text \<open>
  C2 fails for \<open>get_record\<close>, the one public method without a \<open>try\<close> statement. A person
  stored without a mobile number is returned by \<open>get_all_records\<close> with an empty list, while
  \<open>get_record\<close> on its id raises \<open>TypeError\<close>.
\<close>

theorem get_record_raises:
  "fst (add_record no_mobile ready) = Some 1 \<and>
   fst (get_record 1 (snd (add_record no_mobile ready))) = Inl TypeError \<and>
   map r_mobile_numbers (fst (get_all_records (snd (add_record no_mobile ready)))) = [[]]"
proof -
  have "fst (add_record no_mobile ready) = Some 1"
    by code_simp
  moreover have "fst (get_record 1 (snd (add_record no_mobile ready))) = Inl TypeError"
    by code_simp
  moreover have
    "map r_mobile_numbers (fst (get_all_records (snd (add_record no_mobile ready)))) = [[]]"
    by code_simp
  ultimately show ?thesis by simp
qed

subsection \<open>C3: what \<open>create_tables\<close> drops\<close>

text \<open>
  C3 says that the rows of \<open>contact_info\<close> and \<open>documents\<close> survive a run of
  \<open>create_tables\<close>, the two tables being created only if absent. That is what the method
  announces: its docstring reads ``Create database tables if they don't exist'', and the two
  child tables are created with \<open>CREATE TABLE IF NOT EXISTS\<close>. But \<open>_create_tables\<close> begins
  with three \<open>DROP TABLE IF EXISTS ... CASCADE\<close> statements, one for each table, and the
  application runs it at every start. On the store that holds \<open>alice\<close> both child tables
  have rows before the run and none after it.
\<close>

theorem create_tables_drops_children:
  "contact_info (db populated) \<noteq> Some [] \<and> documents (db populated) \<noteq> Some [] \<and>
   fst (create_tables populated) = Inr () \<and>
   contact_info (db (snd (create_tables populated))) = Some [] \<and>
   documents (db (snd (create_tables populated))) = Some []"
proof -
  have "contact_info (db populated) \<noteq> Some []"
    by code_simp
  moreover have "documents (db populated) \<noteq> Some []"
    by code_simp
  moreover have "fst (create_tables populated) = Inr ()"
    by code_simp
  moreover have "contact_info (db (snd (create_tables populated))) = Some []"
    by code_simp
  moreover have "documents (db (snd (create_tables populated))) = Some []"
    by code_simp
  ultimately show ?thesis by simp
qed

subsection \<open>C5: the retry policy of the executor\<close>

text \<open>
  C5. For every operation and every world, one call of \<open>execute_with_retry\<close> with the
  default of three attempts extends the log by a stretch \<open>es\<close> in which
  \<^item> the events come in the order of \<open>shape\<close>: attempt after attempt, a failed attempt
    rolling back the connection it had, sleeping if another attempt follows, and releasing
    the connection;
  \<^item> between one and three attempts are made, each ending in a commit or an exception;
  \<^item> there is a sleep of one second between two attempts and no other sleep;
  \<^item> every failure that was followed by another attempt is an \<open>OperationalError\<close> or an
    \<open>InterfaceError\<close>, and a failure of any other class is the error the call raises: it
    is not retried;
  \<^item> every connection obtained is committed or rolled back, and returned to the pool;
  \<^item> when the call raises, it raises the last failure, nothing was committed, the tables
    are as before, and an \<open>OperationalError\<close> or \<open>InterfaceError\<close> is raised only after the
    third attempt;
  \<^item> when the call returns, every failure before was one of these two errors, and the call
    returns the operation's result right after the one commit and the release, the database
    being the one the operation left.
\<close>

theorem execute_with_retry_policy:
  assumes "execute_with_retry operation 3 w = (res, w')"
  shows "\<exists>es. trace w' = trace w @ es \<and> shape es \<and>
     1 \<le> attempts_made es \<and> attempts_made es \<le> 3 \<and>
     sleeps es = replicate (attempts_made es - 1) 1 \<and>
     list_all connectivity_error (butlast (failures es)) \<and>
     (\<forall>e \<in> set (failures es). connectivity_error e \<or> res = Inl e) \<and>
     count_list es Rollback + count_list es Commit = count_list es GetConn \<and>
     count_list es PutConn = count_list es GetConn \<and>
     (\<forall>e. res = Inl e \<longrightarrow>
        failures es \<noteq> [] \<and> last (failures es) = e \<and> count_list es Commit = 0 \<and>
        same_tables (db w') (db w) \<and> (connectivity_error e \<longrightarrow> attempts_made es = 3)) \<and>
     (\<forall>r. res = Inr r \<longrightarrow>
        list_all connectivity_error (failures es) \<and>
        count_list es Commit = 1 \<and> drop (length es - 2) es = [Commit, PutConn] \<and>
        (\<exists>x now d0. r = Some x \<and> operation now d0 = (Inr x, db w') \<and>
           same_tables d0 (db w)))"
proof -
  from execute_report[OF assms] obtain es
    where es: "trace w' = trace w @ es" and rep: "report 3 es res"
    by (elim exE conjE)
  note D = execute_db[OF assms]
  have tc: "transient = connectivity_error"
    by (rule ext) (simp add: transient_def connectivity_error_def)
  have fail: "failures es \<noteq> [] \<and> last (failures es) = e \<and> count_list es Commit = 0 \<and>
        same_tables (db w') (db w) \<and> (connectivity_error e \<longrightarrow> attempts_made es = 3)"
    if "res = Inl e" for e
    using rep D that by (simp add: report_def tc)
  have ret: "list_all connectivity_error (failures es) \<and>
        count_list es Commit = 1 \<and> drop (length es - 2) es = [Commit, PutConn] \<and>
        (\<exists>x now d0. r = Some x \<and> operation now d0 = (Inr x, db w') \<and>
           same_tables d0 (db w))"
    if "res = Inr r" for r
  proof -
    from rep that have a: "r \<noteq> None" "count_list es Commit = 1"
      "drop (length es - 2) es = [Commit, PutConn]"
      "list_all connectivity_error (failures es)"
      by (simp_all add: report_def tc)
    then obtain x where "r = Some x" by blast
    with D that a show ?thesis by blast
  qed
  have gen: "shape es" "1 \<le> attempts_made es" "attempts_made es \<le> 3"
    "sleeps es = replicate (attempts_made es - 1) 1"
    "list_all connectivity_error (butlast (failures es))"
    "count_list es Rollback + count_list es Commit = count_list es GetConn"
    "count_list es PutConn = count_list es GetConn"
    using rep by (simp_all add: report_def tc)
  have other: "connectivity_error e \<or> res = Inl e" if e: "e \<in> set (failures es)" for e
  proof (cases res)
    case (Inl e0)
    from fail[OF Inl] have "failures es = butlast (failures es) @ [e0]"
      by (metis append_butlast_last_id)
    then have "e \<in> set (butlast (failures es)) \<or> e = e0"
      using e by (metis Un_iff empty_iff empty_set set_ConsD set_append)
    then show ?thesis
      using gen(5) Inl by (auto simp: list_all_iff)
  next
    case (Inr r)
    from ret[OF Inr] e show ?thesis
      by (simp add: list_all_iff)
  qed
  show ?thesis
    using es gen fail ret other by (intro exI[of _ es]) blast
qed

text \<open>
  Two runs in the world \<open>flaky\<close>, whose first attempt loses the connection while executing
  and whose second would lose it at commit. An operation that returns is committed at the
  third attempt. An operation that raises \<open>KeyError\<close> is tried again after the
  \<open>OperationalError\<close>, and its \<open>KeyError\<close> ends the call at the second attempt.
\<close>

theorem execute_with_retry_policy_witness:
  "fst (execute_with_retry (\<lambda>now. returns (5::nat)) 3 flaky) = Inr (Some 5) \<and>
   trace (snd (execute_with_retry (\<lambda>now. returns (5::nat)) 3 flaky)) =
     [GetConn, Except OperationalError, Rollback, Sleep 1, PutConn,
      GetConn, Except InterfaceError, Rollback, Sleep 1, PutConn,
      GetConn, Commit, PutConn] \<and>
   fst (execute_with_retry (\<lambda>now. (raises KeyError :: nat stmt)) 3 flaky) = Inl KeyError \<and>
   trace (snd (execute_with_retry (\<lambda>now. (raises KeyError :: nat stmt)) 3 flaky)) =
     [GetConn, Except OperationalError, Rollback, Sleep 1, PutConn,
      GetConn, Except KeyError, Rollback, PutConn] \<and>
   \<not> connectivity_error KeyError \<and>
   (\<exists>es. trace (snd (execute_with_retry (\<lambda>now. (raises KeyError :: nat stmt)) 3 flaky))
            = trace flaky @ es \<and>
      shape es \<and> attempts_made es \<le> 3 \<and>
      sleeps es = replicate (attempts_made es - 1) 1 \<and>
      list_all connectivity_error (butlast (failures es)) \<and>
      last (failures es) = KeyError \<and> count_list es Commit = 0 \<and>
      same_tables (db (snd (execute_with_retry (\<lambda>now. (raises KeyError :: nat stmt)) 3 flaky)))
        (db flaky))"
proof -
  let ?ok = "execute_with_retry (\<lambda>now. returns (5::nat)) 3 flaky"
  let ?ko = "execute_with_retry (\<lambda>now. (raises KeyError :: nat stmt)) 3 flaky"
  have "fst ?ok = Inr (Some 5)"
    by code_simp
  moreover have "trace (snd ?ok) =
     [GetConn, Except OperationalError, Rollback, Sleep 1, PutConn,
      GetConn, Except InterfaceError, Rollback, Sleep 1, PutConn,
      GetConn, Commit, PutConn]"
    by code_simp
  moreover have f: "fst ?ko = Inl KeyError"
    by code_simp
  moreover have "trace (snd ?ko) =
     [GetConn, Except OperationalError, Rollback, Sleep 1, PutConn,
      GetConn, Except KeyError, Rollback, PutConn]"
    by code_simp
  moreover have "\<not> connectivity_error KeyError"
    by (simp add: connectivity_error_def)
  moreover have "?ko = (Inl KeyError, snd ?ko)"
    using f by (metis prod.collapse)
  from execute_with_retry_policy[OF this]
  have "\<exists>es. trace (snd ?ko) = trace flaky @ es \<and>
      shape es \<and> attempts_made es \<le> 3 \<and>
      sleeps es = replicate (attempts_made es - 1) 1 \<and>
      list_all connectivity_error (butlast (failures es)) \<and>
      last (failures es) = KeyError \<and> count_list es Commit = 0 \<and>
      same_tables (db (snd ?ko)) (db flaky)"
    by blast
  ultimately show ?thesis
    by blast
qed

subsection \<open>C6: \<open>search_records\<close> and substrings\<close>




subsection \<open>C10: the empty query\<close>

text \<open>
  C10. In every world \<open>search_records\<close> with the empty string does what \<open>get_all_records\<close>
  does; without connectivity faults, on a reachable database, the persons of the result are
  the rows of the \<open>persons\<close> table.
\<close>

theorem search_empty_query_lists_all:
  "search_records [] w = get_all_records w \<and>
   (calm w \<and> wf (db w) \<longrightarrow>
      mset (map r_person (fst (search_records [] w))) = mset (the (persons (db w))))"
proof (intro conjI impI)
  have all: "filter (\<lambda>r. ilike (lc_lower w) (p_full_name (r_person r)) ''%%'') rs = rs" for rs
    by (simp add: ilike_everything)
  have "search_records [] w =
     (filter (\<lambda>r. ilike (lc_lower w) (p_full_name (r_person r)) ''%%'') (fst (get_all_records w)),
      snd (get_all_records w))"
    using search_records_pattern[of "[]" w] by (simp add: nul_free_def)
  then show eq: "search_records [] w = get_all_records w"
    by (simp only: all prod.collapse)
  assume "calm w \<and> wf (db w)"
  then obtain ps cis ds where "calm w" "persons (db w) = Some ps"
    "contact_info (db w) = Some cis" "documents (db w) = Some ds"
    by (auto elim: wfE)
  then have g: "fst (get_all_records w) =
      map materialize (order_by_created_at_desc (map (aggregate cis ds) ps))"
    and p: "the (persons (db w)) = ps"
    by (simp_all add: get_all_records_calm)
  show "mset (map r_person (fst (search_records [] w))) = mset (the (persons (db w)))"
    unfolding eq g p persons_of_listing(1) by (rule persons_of_listing(2))
qed

theorem search_empty_query_lists_all_witness:
  "calm populated \<and> wf (db populated) \<and>
   search_records [] populated = get_all_records populated \<and>
   mset (map r_person (fst (search_records [] populated))) = mset (the (persons (db populated)))"
proof -
  have "calm populated"
    by code_simp
  moreover have "wf (db populated)"
    by code_simp
  ultimately show ?thesis
    using search_empty_query_lists_all[of populated] by blast
qed

subsection \<open>C8: \<open>update_record\<close> keeps \<open>id\<close> and \<open>created_at\<close>\<close>

text \<open>
  C8. For every id, payload and world, whether \<open>update_record\<close> succeeds or fails, every
  person has the \<open>id\<close> and the \<open>created_at\<close> it had before, in the same table order; and
  the rows of the three tables that belong to other persons are untouched, so that only the
  other scalar columns of the person and its child rows can differ.
\<close>

theorem update_record_keeps_id_and_created_at:
  "ids_and_created_at (db (snd (update_record record_id updated_data w)))
     = ids_and_created_at (db w) \<and>
   other_rows record_id (db (snd (update_record record_id updated_data w)))
     = other_rows record_id (db w)"
  by (simp add: update_record_frame)

subsection \<open>C9: \<open>update_record\<close> on an id that is not stored\<close>

text \<open>
  C9. Without connectivity faults, on a reachable database, for an id that no person has and
  a valid payload whose five child lists are empty or absent, \<open>update_record\<close> returns
  \<open>True\<close> and leaves the database as it was.
\<close>

theorem update_record_missing_id:
  assumes "calm w" and "wf (db w)" and "valid_payload record"
    and "record_id \<notin> p_id ` set (the (persons (db w)))"
    and "items (mobile_numbers record) = []" and "items (whatsapp_numbers record) = []"
    and "items (facebook_links record) = []" and "items (website_links record) = []"
    and "items (pdf_urls record) = []"
  shows "fst (update_record record_id record w) = True \<and>
         db (snd (update_record record_id record w)) = db w"
  by (simp add: update_record_missing[OF assms])

theorem update_record_missing_id_witness:
  "calm populated \<and> wf (db populated) \<and> valid_payload childless \<and>
   42 \<notin> p_id ` set (the (persons (db populated))) \<and>
   items (mobile_numbers childless) = [] \<and> items (whatsapp_numbers childless) = [] \<and>
   items (facebook_links childless) = [] \<and> items (website_links childless) = [] \<and>
   items (pdf_urls childless) = [] \<and>
   fst (update_record 42 childless populated) = True \<and>
   db (snd (update_record 42 childless populated)) = db populated"
proof -
  have h: "calm populated" "wf (db populated)" "valid_payload childless"
    "42 \<notin> p_id ` set (the (persons (db populated)))"
    "items (mobile_numbers childless) = []" "items (whatsapp_numbers childless) = []"
    "items (facebook_links childless) = []" "items (website_links childless) = []"
    "items (pdf_urls childless) = []"
    by code_simp+
  show ?thesis
    using update_record_missing_id[OF h] h by simp
qed

subsection \<open>C4: \<open>get_record\<close> after \<open>update_record\<close>\<close>

text \<open>
  The claim says that no child from before the update is left, also when the payload's
  document list is absent. \<open>_update_record\<close> replaces the documents only under
  \<open>if 'pdf_urls' in updated_data\<close>: updating \<open>alice\<close> with a payload that has no such key
  succeeds, and \<open>get_record\<close> still returns the document stored before.
\<close>

theorem update_without_pdf_key_keeps_documents:
  "valid_payload without_pdf_key \<and> items (pdf_urls without_pdf_key) = [] \<and>
   fst (update_record 1 without_pdf_key populated) = True \<and>
   map_sum id (map_option r_pdf_urls)
     (fst (get_record 1 (snd (update_record 1 without_pdf_key populated))))
     = Inr (Some [''img.example/p1''])"
proof -
  have "valid_payload without_pdf_key"
    by code_simp
  moreover have "items (pdf_urls without_pdf_key) = []"
    by code_simp
  moreover have "fst (update_record 1 without_pdf_key populated) = True"
    by code_simp
  moreover have "map_sum id (map_option r_pdf_urls)
     (fst (get_record 1 (snd (update_record 1 without_pdf_key populated))))
     = Inr (Some [''img.example/p1''])"
    by code_simp
  ultimately show ?thesis by simp
qed

text \<open>
  C4 as amended. Without connectivity faults, on a reachable database, for every stored
  person and every valid payload whose four contact lists are non-empty: \<open>update_record\<close>
  returns \<open>True\<close>, and \<open>get_record\<close> then returns the payload's scalar fields with the
  person's \<open>id\<close> and \<open>created_at\<close>, the distinct non-empty values of the payload's four
  contact lists, and for the documents the distinct non-empty values of the payload's list
  when the payload has the key \<open>pdf_urls\<close> (none when the list is empty), else those of
  the documents stored before.
\<close>

theorem update_then_get_record:
  assumes "calm w" and "wf (db w)" and "valid_payload record"
    and "p0 \<in> set (the (persons (db w)))"
    and "items (mobile_numbers record) \<noteq> []" and "items (whatsapp_numbers record) \<noteq> []"
    and "items (facebook_links record) \<noteq> []" and "items (website_links record) \<noteq> []"
  shows "\<exists>w1 r w2.
     update_record (p_id p0) record w = (True, w1) \<and>
     get_record (p_id p0) w1 = (Inr (Some r), w2) \<and>
     r_person r = stored_row record (p_id p0) (p_created_at p0) \<and>
     mset (r_mobile_numbers r)
       = mset (remdups (filter (\<lambda>s. s \<noteq> []) (items (mobile_numbers record)))) \<and>
     mset (r_whatsapp_numbers r)
       = mset (remdups (filter (\<lambda>s. s \<noteq> []) (items (whatsapp_numbers record)))) \<and>
     mset (r_facebook_links r)
       = mset (remdups (filter (\<lambda>s. s \<noteq> []) (items (facebook_links record)))) \<and>
     mset (r_website_links r)
       = mset (remdups (filter (\<lambda>s. s \<noteq> []) (items (website_links record)))) \<and>
     mset (r_pdf_urls r)
       = mset (remdups (filter (\<lambda>s. s \<noteq> [])
           (if has_key (pdf_urls record) then items (pdf_urls record)
            else urls_for (the (documents (db w))) (p_id p0) ''pdf'')))"
proof -
  have "p_id p0 \<in> p_id ` set (the (persons (db w)))"
    using assms(4) by simp
  then have "update_record (p_id p0) record w =
    (True, w\<lparr>db := after_update (p_id p0) record (db w),
             trace := trace w @ [GetConn, Commit, PutConn]\<rparr>)"
    using assms(1-3) by (intro update_record_calm)
  moreover note get_record_after_update[where tr = "trace w @ [GetConn, Commit, PutConn]",
      OF assms(1,2,4-8)]
  ultimately show ?thesis by blast
qed

theorem update_then_get_record_witness:
  "calm populated \<and> wf (db populated) \<and> valid_payload edited \<and>
   hd (the (persons (db populated))) \<in> set (the (persons (db populated))) \<and>
   p_id (hd (the (persons (db populated)))) = 1 \<and>
   items (mobile_numbers edited) \<noteq> [] \<and> items (whatsapp_numbers edited) \<noteq> [] \<and>
   items (facebook_links edited) \<noteq> [] \<and> items (website_links edited) \<noteq> [] \<and>
   (\<exists>w1 r w2.
     update_record 1 edited populated = (True, w1) \<and>
     get_record 1 w1 = (Inr (Some r), w2) \<and>
     p_full_name (r_person r) = ''Alice R. Roy'' \<and>
     p_created_at (r_person r) = 1000 \<and>
     mset (r_mobile_numbers r) = mset [''019''] \<and>
     r_pdf_urls r = [])"
proof -
  let ?p0 = "hd (the (persons (db populated)))"
  have h: "calm populated" "wf (db populated)" "valid_payload edited"
    "?p0 \<in> set (the (persons (db populated)))"
    "items (mobile_numbers edited) \<noteq> []" "items (whatsapp_numbers edited) \<noteq> []"
    "items (facebook_links edited) \<noteq> []" "items (website_links edited) \<noteq> []"
    by code_simp+
  have i: "p_id ?p0 = 1" "p_created_at ?p0 = 1000"
    by code_simp+
  have v: "p_full_name (stored_row edited 1 1000) = ''Alice R. Roy''"
    "p_created_at (stored_row edited 1 1000) = 1000"
    "remdups (filter (\<lambda>s. s \<noteq> []) (items (mobile_numbers edited))) = [''019'']"
    "remdups (filter (\<lambda>s. s \<noteq> [])
           (if has_key (pdf_urls edited) then items (pdf_urls edited)
            else urls_for (the (documents (db populated))) 1 ''pdf'')) = []"
    by code_simp+
  from update_then_get_record[OF h] obtain w1 r w2 where
    "update_record 1 edited populated = (True, w1)"
    "get_record 1 w1 = (Inr (Some r), w2)"
    "r_person r = stored_row edited 1 1000"
    "mset (r_mobile_numbers r) = mset [''019'']"
    "mset (r_pdf_urls r) = mset []"
    unfolding i v by blast
  then show ?thesis
    using h i v(1,2) by (intro conjI exI[of _ w1] exI[of _ r] exI[of _ w2]) simp_all
qed

subsection \<open>C7: what \<open>get_all_records\<close> lists\<close>

text \<open>
  C7. In every world the result of \<open>get_all_records\<close> is ordered by \<open>created_at\<close>, newest
  first. Without connectivity faults, on a reachable database, its persons are the rows of
  the \<open>persons\<close> table, each once, and each of the five lists of a record holds the
  distinct non-empty values stored for that person and that kind: no placeholder, and the
  empty list when nothing is stored. When three valid payloads are added to an empty store
  one after the other, the clock reading later each time, the listing is the third, the
  second, the first.
\<close>

theorem get_all_records_listing:
  "newest_first (fst (get_all_records w)) \<and>
   (calm w \<and> wf (db w) \<longrightarrow>
      mset (map r_person (fst (get_all_records w))) = mset (the (persons (db w))) \<and>
      (\<forall>r \<in> set (fst (get_all_records w)).
         mset (r_mobile_numbers r) = mset (remdups (filter (\<lambda>s. s \<noteq> [])
           (values_for (the (contact_info (db w))) (p_id (r_person r)) ''mobile''))) \<and>
         mset (r_whatsapp_numbers r) = mset (remdups (filter (\<lambda>s. s \<noteq> [])
           (values_for (the (contact_info (db w))) (p_id (r_person r)) ''whatsapp''))) \<and>
         mset (r_facebook_links r) = mset (remdups (filter (\<lambda>s. s \<noteq> [])
           (values_for (the (contact_info (db w))) (p_id (r_person r)) ''facebook''))) \<and>
         mset (r_website_links r) = mset (remdups (filter (\<lambda>s. s \<noteq> [])
           (values_for (the (contact_info (db w))) (p_id (r_person r)) ''website''))) \<and>
         mset (r_pdf_urls r) = mset (remdups (filter (\<lambda>s. s \<noteq> [])
           (urls_for (the (documents (db w))) (p_id (r_person r)) ''pdf''))))) \<and>
   (calm w \<and> wf (db w) \<and> persons (db w) = Some [] \<and>
    valid_payload a \<and> valid_payload b \<and> valid_payload c \<and> clock w < t1 \<and> t1 < t2 \<longrightarrow>
      (\<exists>ia ib ic w1 w2 w3.
         add_record a w = (Some ia, w1) \<and>
         add_record b (at_time t1 w1) = (Some ib, w2) \<and>
         add_record c (at_time t2 w2) = (Some ic, w3) \<and>
         map r_person (fst (get_all_records w3)) =
           [stored_row c ic t2, stored_row b ib t1, stored_row a ia (clock w)]))"
proof (intro conjI impI ballI)
  show "newest_first (fst (get_all_records w))"
    by (rule get_all_records_newest_first)
next
  assume "calm w \<and> wf (db w)"
  then have "calm w" "wf (db w)"
    by simp_all
  then show "mset (map r_person (fst (get_all_records w))) = mset (the (persons (db w)))"
    by (rule get_all_records_persons)
next
  fix r
  assume "calm w \<and> wf (db w)" and "r \<in> set (fst (get_all_records w))"
  then have h: "calm w" "wf (db w)" "r \<in> set (fst (get_all_records w))"
    by simp_all
  show "mset (r_mobile_numbers r) = mset (remdups (filter (\<lambda>s. s \<noteq> [])
           (values_for (the (contact_info (db w))) (p_id (r_person r)) ''mobile'')))"
    by (rule get_all_records_lists(1)[OF h])
  show "mset (r_whatsapp_numbers r) = mset (remdups (filter (\<lambda>s. s \<noteq> [])
           (values_for (the (contact_info (db w))) (p_id (r_person r)) ''whatsapp'')))"
    by (rule get_all_records_lists(2)[OF h])
  show "mset (r_facebook_links r) = mset (remdups (filter (\<lambda>s. s \<noteq> [])
           (values_for (the (contact_info (db w))) (p_id (r_person r)) ''facebook'')))"
    by (rule get_all_records_lists(3)[OF h])
  show "mset (r_website_links r) = mset (remdups (filter (\<lambda>s. s \<noteq> [])
           (values_for (the (contact_info (db w))) (p_id (r_person r)) ''website'')))"
    by (rule get_all_records_lists(4)[OF h])
  show "mset (r_pdf_urls r) = mset (remdups (filter (\<lambda>s. s \<noteq> [])
           (urls_for (the (documents (db w))) (p_id (r_person r)) ''pdf'')))"
    by (rule get_all_records_lists(5)[OF h])
next
  assume "calm w \<and> wf (db w) \<and> persons (db w) = Some [] \<and>
    valid_payload a \<and> valid_payload b \<and> valid_payload c \<and> clock w < t1 \<and> t1 < t2"
  then show "\<exists>ia ib ic w1 w2 w3.
         add_record a w = (Some ia, w1) \<and>
         add_record b (at_time t1 w1) = (Some ib, w2) \<and>
         add_record c (at_time t2 w2) = (Some ic, w3) \<and>
         map r_person (fst (get_all_records w3)) =
           [stored_row c ic t2, stored_row b ib t1, stored_row a ia (clock w)]"
    by (intro three_adds) simp_all
qed

text \<open>
  On the empty store \<open>alice\<close> is added, then the same person without a mobile number, then
  \<open>edited\<close>, one millisecond apart. The listing has the ids 3, 2, 1; the second person's
  list of mobile numbers is empty.
\<close>

theorem get_all_records_listing_witness:
  "calm ready \<and> wf (db ready) \<and> persons (db ready) = Some [] \<and>
   valid_payload alice \<and> valid_payload no_mobile \<and> valid_payload edited \<and>
   clock ready < 2000 \<and> (2000 :: int) < 3000 \<and>
   (\<exists>ia ib ic w1 w2 w3.
      add_record alice ready = (Some ia, w1) \<and>
      add_record no_mobile (at_time 2000 w1) = (Some ib, w2) \<and>
      add_record edited (at_time 3000 w2) = (Some ic, w3) \<and>
      map r_person (fst (get_all_records w3)) =
        [stored_row edited ic 3000, stored_row no_mobile ib 2000,
         stored_row alice ia (clock ready)]) \<and>
   map (\<lambda>r. (p_id (r_person r), r_mobile_numbers r))
     (fst (get_all_records (snd (add_record edited (at_time 3000
        (snd (add_record no_mobile (at_time 2000 (snd (add_record alice ready))))))))))
     = [(3, [''019'']), (2, []), (1, [''017''])]"
proof -
  have h: "calm ready \<and> wf (db ready) \<and> persons (db ready) = Some [] \<and>
    valid_payload alice \<and> valid_payload no_mobile \<and> valid_payload edited \<and>
    clock ready < 2000 \<and> (2000 :: int) < 3000"
    by code_simp
  have e: "map (\<lambda>r. (p_id (r_person r), r_mobile_numbers r))
     (fst (get_all_records (snd (add_record edited (at_time 3000
        (snd (add_record no_mobile (at_time 2000 (snd (add_record alice ready))))))))))
     = [(3, [''019'']), (2, []), (1, [''017''])]"
    by code_simp
  from get_all_records_listing[of ready alice no_mobile edited 2000 3000] h
  have "\<exists>ia ib ic w1 w2 w3.
      add_record alice ready = (Some ia, w1) \<and>
      add_record no_mobile (at_time 2000 w1) = (Some ib, w2) \<and>
      add_record edited (at_time 3000 w2) = (Some ic, w3) \<and>
      map r_person (fst (get_all_records w3)) =
        [stored_row edited ic 3000, stored_row no_mobile ib 2000,
         stored_row alice ia (clock ready)]"
    by blast
  then show ?thesis
    using h e by blast
qed

end
